theory Spec2Isabelle
  imports Complex_Main
begin

section \<open>Data model (supabase/migrations/20240215000001_initial_schema.sql)\<close>

text \<open>
  Row identifiers are uuids; only their equality matters, so they are natural numbers.
  Column type \<open>numeric\<close> is an exact decimal: it is modelled by the rationals.
  A \<open>timestamptz\<close> is kept by its civil fields in the one time zone in which the
  month window and the day of month are evaluated: year, month (1..12), day of month, the
  time within the day in milliseconds (\<open>tod\<close>) and the microseconds within that
  millisecond (\<open>usec\<close>, 0..999): the store keeps microseconds.
\<close>

type_synonym uuid = nat
type_synonym numeric = rat

record timestamp =
  yr :: int
  mon :: nat
  dom :: nat
  tod :: nat
  usec :: nat

text \<open>
  The comparison of JavaScript \<open>Date\<close> values, \<open>new Date(a) < new Date(b)\<close>: a
  \<open>Date\<close> holds milliseconds, the microseconds of the string it is made from are
  dropped.
\<close>

definition ts_less :: "timestamp \<Rightarrow> timestamp \<Rightarrow> bool" where
  "ts_less a b =
     (yr a < yr b \<or> (yr a = yr b \<and>
       (mon a < mon b \<or> (mon a = mon b \<and>
         (dom a < dom b \<or> (dom a = dom b \<and> tod a < tod b))))))"

definition ts_le :: "timestamp \<Rightarrow> timestamp \<Rightarrow> bool" where
  "ts_le a b = (\<not> ts_less b a)"

text \<open>The comparison of \<open>timestamptz\<close> values in the store, to the microsecond.\<close>

definition pg_less :: "timestamp \<Rightarrow> timestamp \<Rightarrow> bool" where
  "pg_less a b =
     (yr a < yr b \<or> (yr a = yr b \<and>
       (mon a < mon b \<or> (mon a = mon b \<and>
         (dom a < dom b \<or> (dom a = dom b \<and>
           (tod a < tod b \<or> (tod a = tod b \<and> usec a < usec b))))))))"

definition pg_le :: "timestamp \<Rightarrow> timestamp \<Rightarrow> bool" where
  "pg_le a b = (\<not> pg_less b a)"

text \<open>Table \<open>profiles\<close>: the columns the database functions read or write.\<close>

record profile =
  profile_id :: uuid
  full_name :: string
  balance :: numeric
  profile_updated_at :: timestamp

text \<open>Table \<open>transactions\<close>.\<close>

record transaction =
  tx_id :: uuid
  tx_user_id :: uuid
  tx_avatar :: string
  tx_name :: string
  tx_category :: string
  tx_date :: timestamp
  tx_amount :: numeric
  tx_recurring :: bool

text \<open>Table \<open>pots\<close>.\<close>

record pot =
  pot_id :: uuid
  pot_user_id :: uuid
  pot_name :: string
  pot_target :: numeric
  pot_total :: numeric
  pot_theme :: string
  pot_updated_at :: timestamp

text \<open>The store: every table is the list of its rows, in insertion order.\<close>

record db =
  profiles :: "profile list"
  transactions :: "transaction list"
  pots :: "pot list"

text \<open>
  The \<open>jsonb\<close> results of the database functions. An object with key \<open>error\<close> is
  \<open>Inl\<close> of the message:
  \<open>Unauthorized\<close>, \<open>Amount must be a positive number\<close>, \<open>Pot not found\<close>,
  \<open>Profile not found\<close>, \<open>Insufficient balance\<close>, \<open>Insufficient pot balance\<close>.
  \<open>StoreError\<close> is the error object the store hands to the client when it rejects a
  statement (a constraint of the schema, a range it cannot serve).
\<close>

datatype error =
    Unauthorized
  | InvalidAmount
  | NotFound
  | ProfileNotFound
  | InsufficientBalance
  | InsufficientPotBalance
  | StoreError

text \<open>The success object of \<open>pot_deposit\<close> and \<open>pot_withdraw\<close>; SQL NULL is \<open>None\<close>.\<close>

record pot_reply =
  reply_pot :: "pot option"
  reply_newBalance :: "numeric option"

section \<open>Pot transfer functions (supabase/migrations/20240215000002_db_functions.sql)\<close>

text \<open>\<open>SELECT * INTO v_pot FROM pots WHERE id = pot_id AND user_id = v_user_id\<close>\<close>

definition select_pot :: "uuid \<Rightarrow> uuid \<Rightarrow> pot list \<Rightarrow> pot option" where
  "select_pot pid v_user_id ps = find (\<lambda>p. pot_id p = pid \<and> pot_user_id p = v_user_id) ps"

text \<open>\<open>SELECT * INTO v_pot FROM pots WHERE id = pot_id\<close>\<close>

definition select_pot_by_id :: "uuid \<Rightarrow> pot list \<Rightarrow> pot option" where
  "select_pot_by_id pid ps = find (\<lambda>p. pot_id p = pid) ps"

text \<open>\<open>SELECT * INTO v_profile FROM profiles WHERE id = v_user_id\<close>\<close>

definition select_profile :: "uuid \<Rightarrow> profile list \<Rightarrow> profile option" where
  "select_profile v_user_id ps = find (\<lambda>p. profile_id p = v_user_id) ps"

text \<open>\<open>UPDATE profiles SET balance = balance + d, updated_at = now() WHERE id = v_user_id\<close>\<close>

definition add_balance :: "timestamp \<Rightarrow> uuid \<Rightarrow> numeric \<Rightarrow> profile list \<Rightarrow> profile list" where
  "add_balance now v_user_id d ps =
     map (\<lambda>p. if profile_id p = v_user_id
              then p\<lparr>balance := balance p + d, profile_updated_at := now\<rparr> else p) ps"

text \<open>\<open>UPDATE pots SET total = total + d, updated_at = now() WHERE id = pot_id\<close>\<close>

definition add_total :: "timestamp \<Rightarrow> uuid \<Rightarrow> numeric \<Rightarrow> pot list \<Rightarrow> pot list" where
  "add_total now pid d ps =
     map (\<lambda>p. if pot_id p = pid
              then p\<lparr>pot_total := pot_total p + d, pot_updated_at := now\<rparr> else p) ps"

text \<open>
  \<open>pot_deposit(pot_id, amount)\<close>. The arguments before the store are \<open>auth.uid()\<close>
  (NULL when nobody is signed in), \<open>now()\<close>, the pot id and the amount (NULL is
  \<open>None\<close>). Every \<open>RETURN\<close> of an error object comes before the first \<open>UPDATE\<close>.
\<close>

definition pot_deposit ::
  "uuid option \<Rightarrow> timestamp \<Rightarrow> uuid \<Rightarrow> numeric option \<Rightarrow> db \<Rightarrow> (error + pot_reply) \<times> db" where
  "pot_deposit auth_uid now pid amount s =
     (case auth_uid of
        None \<Rightarrow> (Inl Unauthorized, s)
      | Some v_user_id \<Rightarrow>
         (case amount of
            None \<Rightarrow> (Inl InvalidAmount, s)
          | Some a \<Rightarrow>
             if a \<le> 0 then (Inl InvalidAmount, s)
             else
               (case select_pot pid v_user_id (pots s) of
                  None \<Rightarrow> (Inl NotFound, s)
                | Some v_pot \<Rightarrow>
                   (case select_profile v_user_id (profiles s) of
                      None \<Rightarrow> (Inl ProfileNotFound, s)
                    | Some v_profile \<Rightarrow>
                       if balance v_profile < a then (Inl InsufficientBalance, s)
                       else
                         let s1 = s\<lparr>profiles := add_balance now v_user_id (- a) (profiles s)\<rparr>;
                             s2 = s1\<lparr>pots := add_total now pid a (pots s1)\<rparr>
                         in (Inr \<lparr>reply_pot = select_pot_by_id pid (pots s2),
                                  reply_newBalance =
                                    map_option balance (select_profile v_user_id (profiles s2))\<rparr>,
                             s2)))))"

text \<open>\<open>pot_withdraw(pot_id, amount)\<close>: no profile lookup before the two updates.\<close>

definition pot_withdraw ::
  "uuid option \<Rightarrow> timestamp \<Rightarrow> uuid \<Rightarrow> numeric option \<Rightarrow> db \<Rightarrow> (error + pot_reply) \<times> db" where
  "pot_withdraw auth_uid now pid amount s =
     (case auth_uid of
        None \<Rightarrow> (Inl Unauthorized, s)
      | Some v_user_id \<Rightarrow>
         (case amount of
            None \<Rightarrow> (Inl InvalidAmount, s)
          | Some a \<Rightarrow>
             if a \<le> 0 then (Inl InvalidAmount, s)
             else
               (case select_pot pid v_user_id (pots s) of
                  None \<Rightarrow> (Inl NotFound, s)
                | Some v_pot \<Rightarrow>
                   if pot_total v_pot < a then (Inl InsufficientPotBalance, s)
                   else
                     let s1 = s\<lparr>pots := add_total now pid (- a) (pots s)\<rparr>;
                         s2 = s1\<lparr>profiles := add_balance now v_user_id a (profiles s1)\<rparr>
                     in (Inr \<lparr>reply_pot = select_pot_by_id pid (pots s2),
                              reply_newBalance =
                                map_option balance (select_profile v_user_id (profiles s2))\<rparr>,
                         s2))))"

text \<open>
  \<open>delete_pot(pot_id)\<close>: the pot's total goes back to the balance when it is positive,
  then \<open>DELETE FROM pots WHERE id = pot_id\<close>.
\<close>

definition delete_pot :: "uuid option \<Rightarrow> timestamp \<Rightarrow> uuid \<Rightarrow> db \<Rightarrow> (error + unit) \<times> db" where
  "delete_pot auth_uid now pid s =
     (case auth_uid of
        None \<Rightarrow> (Inl Unauthorized, s)
      | Some v_user_id \<Rightarrow>
         (case select_pot pid v_user_id (pots s) of
            None \<Rightarrow> (Inl NotFound, s)
          | Some v_pot \<Rightarrow>
             let s1 = (if pot_total v_pot > 0
                       then s\<lparr>profiles := add_balance now v_user_id (pot_total v_pot) (profiles s)\<rparr>
                       else s);
                 s2 = s1\<lparr>pots := filter (\<lambda>p. pot_id p \<noteq> pid) (pots s1)\<rparr>
             in (Inr (), s2)))"

text \<open>Reading one account's balance and one pot's total out of the store.\<close>

definition balance_of :: "db \<Rightarrow> uuid \<Rightarrow> numeric option" where
  "balance_of s u = map_option balance (select_profile u (profiles s))"

definition total_of :: "db \<Rightarrow> uuid \<Rightarrow> uuid \<Rightarrow> numeric option" where
  "total_of s u pid = map_option pot_total (select_pot pid u (pots s))"

text \<open>What the caller's pot and the caller's balance hold together.\<close>

definition pot_plus_balance :: "db \<Rightarrow> uuid \<Rightarrow> uuid \<Rightarrow> numeric option" where
  "pot_plus_balance s u pid =
     (case total_of s u pid of
        None \<Rightarrow> None
      | Some t \<Rightarrow> (case balance_of s u of None \<Rightarrow> None | Some b \<Rightarrow> Some (t + b)))"

text \<open>The rows of the two tables other than the caller's account and the pot addressed.\<close>

definition other_profiles :: "uuid \<Rightarrow> db \<Rightarrow> profile list" where
  "other_profiles u s = filter (\<lambda>p. profile_id p \<noteq> u) (profiles s)"

definition other_pots :: "uuid \<Rightarrow> db \<Rightarrow> pot list" where
  "other_pots pid s = filter (\<lambda>p. pot_id p \<noteq> pid) (pots s)"

text \<open>The money an account holds in its pots, and its funds: balance plus pots.\<close>

definition pots_total :: "pot list \<Rightarrow> uuid \<Rightarrow> numeric" where
  "pots_total ps u = sum_list (map pot_total (filter (\<lambda>p. pot_user_id p = u) ps))"

definition funds :: "db \<Rightarrow> uuid \<Rightarrow> numeric option" where
  "funds s u = map_option (\<lambda>b. b + pots_total (pots s) u) (balance_of s u)"


text \<open>The primary key of \<open>pots\<close>, and its constraint \<open>CHECK (total >= 0)\<close>.\<close>

definition pots_pk :: "db \<Rightarrow> bool" where
  "pots_pk s = distinct (map pot_id (pots s))"

definition pots_check :: "db \<Rightarrow> bool" where
  "pots_check s = list_all (\<lambda>p. 0 \<le> pot_total p) (pots s)"

section \<open>Balance trigger (update_balance_on_transaction)\<close>

definition leap_year :: "int \<Rightarrow> bool" where
  "leap_year y = (y mod 4 = 0 \<and> (y mod 100 \<noteq> 0 \<or> y mod 400 = 0))"

definition days_in_month :: "int \<Rightarrow> nat \<Rightarrow> nat" where
  "days_in_month y m =
     (if m = 2 then (if leap_year y then 29 else 28)
      else if m = 4 \<or> m = 6 \<or> m = 9 \<or> m = 11 then 30 else 31)"

text \<open>\<open>v_month_start := date_trunc('month', now())\<close>\<close>

definition month_start :: "timestamp \<Rightarrow> timestamp" where
  "month_start now = \<lparr>yr = yr now, mon = mon now, dom = 1, tod = 0, usec = 0\<rparr>"

text \<open>
  \<open>v_month_end := v_month_start + interval '1 month' - interval '1 second'\<close>:
  the last day of the month at 23:59:59.000000.
\<close>

definition month_end :: "timestamp \<Rightarrow> timestamp" where
  "month_end now =
     \<lparr>yr = yr now, mon = mon now, dom = days_in_month (yr now) (mon now), tod = 86399000, usec = 0\<rparr>"

text \<open>\<open>date >= v_month_start AND date <= v_month_end\<close>\<close>

definition in_current_month :: "timestamp \<Rightarrow> timestamp \<Rightarrow> bool" where
  "in_current_month now d = (pg_le (month_start now) d \<and> pg_le d (month_end now))"

text \<open>The row event the trigger is fired for: \<open>TG_OP\<close> with \<open>OLD\<close> and \<open>NEW\<close>.\<close>

datatype tg_event =
    TG_INSERT transaction
  | TG_UPDATE transaction transaction
  | TG_DELETE transaction

fun update_balance_on_transaction :: "timestamp \<Rightarrow> tg_event \<Rightarrow> profile list \<Rightarrow> profile list" where
  "update_balance_on_transaction now (TG_INSERT new) ps =
     (let v_in_current_month = in_current_month now (tx_date new)
      in if v_in_current_month then add_balance now (tx_user_id new) (tx_amount new) ps else ps)"
| "update_balance_on_transaction now (TG_UPDATE old new) ps =
     (let v_in_current_month = in_current_month now (tx_date new)
      in if in_current_month now (tx_date old) \<or> v_in_current_month then
           let ps1 = (if in_current_month now (tx_date old)
                      then add_balance now (tx_user_id old) (- tx_amount old) ps else ps);
               ps2 = (if v_in_current_month
                      then add_balance now (tx_user_id new) (tx_amount new) ps1 else ps1)
           in ps2
         else ps)"
| "update_balance_on_transaction now (TG_DELETE old) ps =
     (let v_in_current_month = in_current_month now (tx_date old)
      in if v_in_current_month then add_balance now (tx_user_id old) (- tx_amount old) ps else ps)"

section \<open>Transaction writes (createTransaction, updateTransaction, deleteTransaction)\<close>

text \<open>
  The client writes table \<open>transactions\<close> directly; the trigger
  \<open>on_transaction_balance_change\<close> runs after each row written. Row-level security
  lets a caller touch only rows with \<open>user_id = auth.uid()\<close>.
\<close>

definition categories :: "string list" where
  "categories = [''Entertainment'', ''Bills'', ''Groceries'', ''Dining Out'', ''Transportation'',
                 ''Personal Care'', ''Education'', ''Lifestyle'', ''Shopping'', ''General'']"

definition own_row :: "uuid option \<Rightarrow> transaction \<Rightarrow> bool" where
  "own_row auth_uid t = (auth_uid = Some (tx_user_id t))"

text \<open>The data of \<open>createTransaction\<close>; the two optional fields have defaults.\<close>

record tx_input =
  in_name :: string
  in_amount :: numeric
  in_category :: string
  in_date :: timestamp
  in_avatar :: "string option"
  in_recurring :: "bool option"

text \<open>The partial record of \<open>updateTransaction\<close>: only the fields present are set.\<close>

record tx_patch =
  patch_name :: "string option"
  patch_amount :: "numeric option"
  patch_category :: "string option"
  patch_date :: "timestamp option"
  patch_avatar :: "string option"
  patch_recurring :: "bool option"

definition apply_patch :: "tx_patch \<Rightarrow> transaction \<Rightarrow> transaction" where
  "apply_patch u t =
     t\<lparr>tx_name := (case patch_name u of None \<Rightarrow> tx_name t | Some v \<Rightarrow> v),
       tx_amount := (case patch_amount u of None \<Rightarrow> tx_amount t | Some v \<Rightarrow> v),
       tx_category := (case patch_category u of None \<Rightarrow> tx_category t | Some v \<Rightarrow> v),
       tx_date := (case patch_date u of None \<Rightarrow> tx_date t | Some v \<Rightarrow> v),
       tx_avatar := (case patch_avatar u of None \<Rightarrow> tx_avatar t | Some v \<Rightarrow> v),
       tx_recurring := (case patch_recurring u of None \<Rightarrow> tx_recurring t | Some v \<Rightarrow> v)\<rparr>"

text \<open>\<open>UPDATE transactions SET ... WHERE hit\<close>, the trigger fired for each row updated.\<close>

fun update_rows ::
  "timestamp \<Rightarrow> (transaction \<Rightarrow> bool) \<Rightarrow> (transaction \<Rightarrow> transaction) \<Rightarrow>
   transaction list \<Rightarrow> profile list \<Rightarrow> transaction list \<times> profile list" where
  "update_rows now hit f [] ps = ([], ps)"
| "update_rows now hit f (t # ts) ps =
     (if hit t
      then let (ts', ps') = update_rows now hit f ts
                              (update_balance_on_transaction now (TG_UPDATE t (f t)) ps)
           in (f t # ts', ps')
      else let (ts', ps') = update_rows now hit f ts ps in (t # ts', ps'))"

text \<open>\<open>DELETE FROM transactions WHERE hit\<close>, the trigger fired for each row deleted.\<close>

fun delete_rows ::
  "timestamp \<Rightarrow> (transaction \<Rightarrow> bool) \<Rightarrow> transaction list \<Rightarrow> profile list \<Rightarrow>
   transaction list \<times> profile list" where
  "delete_rows now hit [] ps = ([], ps)"
| "delete_rows now hit (t # ts) ps =
     (if hit t
      then delete_rows now hit ts (update_balance_on_transaction now (TG_DELETE t) ps)
      else let (ts', ps') = delete_rows now hit ts ps in (t # ts', ps'))"

text \<open>
  \<open>createTransaction\<close>: \<open>new_id\<close> is the value \<open>gen_random_uuid()\<close> draws. The store
  rejects a duplicate primary key and a category outside the enumerated set.
\<close>

definition createTransaction ::
  "uuid option \<Rightarrow> timestamp \<Rightarrow> uuid \<Rightarrow> tx_input \<Rightarrow> db \<Rightarrow> (error + transaction) \<times> db" where
  "createTransaction session now new_id data s =
     (case session of
        None \<Rightarrow> (Inl Unauthorized, s)
      | Some uid \<Rightarrow>
          let insert = \<lparr>tx_id = new_id, tx_user_id = uid,
                        tx_avatar = (case in_avatar data of
                                       None \<Rightarrow> ''/assets/images/avatars/default.jpg''
                                     | Some v \<Rightarrow> v),
                        tx_name = in_name data, tx_category = in_category data,
                        tx_date = in_date data, tx_amount = in_amount data,
                        tx_recurring = (case in_recurring data of None \<Rightarrow> False | Some v \<Rightarrow> v)\<rparr>
          in if new_id \<in> set (map tx_id (transactions s)) \<or> in_category data \<notin> set categories
             then (Inl StoreError, s)
             else (Inr insert,
                   s\<lparr>transactions := transactions s @ [insert],
                     profiles := update_balance_on_transaction now (TG_INSERT insert) (profiles s)\<rparr>))"

text \<open>\<open>updateTransaction\<close>: \<open>.single()\<close> fails when no row was updated.\<close>

definition updateTransaction ::
  "uuid option \<Rightarrow> timestamp \<Rightarrow> uuid \<Rightarrow> tx_patch \<Rightarrow> db \<Rightarrow> (error + transaction) \<times> db" where
  "updateTransaction session now ident data s =
     (let hit = (\<lambda>t. tx_id t = ident \<and> own_row session t)
      in case filter hit (transactions s) of
           [] \<Rightarrow> (Inl NotFound, s)
         | old # _ \<Rightarrow>
             if tx_category (apply_patch data old) \<notin> set categories then (Inl StoreError, s)
             else
               let (ts, ps) = update_rows now hit (apply_patch data) (transactions s) (profiles s)
               in (Inr (apply_patch data old), s\<lparr>transactions := ts, profiles := ps\<rparr>))"

text \<open>\<open>deleteTransaction\<close>: succeeds also when no row matched.\<close>

definition deleteTransaction :: "uuid option \<Rightarrow> timestamp \<Rightarrow> uuid \<Rightarrow> db \<Rightarrow> (error + unit) \<times> db" where
  "deleteTransaction session now ident s =
     (let hit = (\<lambda>t. tx_id t = ident \<and> own_row session t);
          (ts, ps) = delete_rows now hit (transactions s) (profiles s)
      in (Inr (), s\<lparr>transactions := ts, profiles := ps\<rparr>))"

text \<open>Sequences of transaction writes, all evaluated at the same \<open>now\<close>.\<close>

datatype tx_op =
    OpCreate "uuid option" uuid tx_input
  | OpUpdate "uuid option" uuid tx_patch
  | OpDelete "uuid option" uuid

fun apply_tx_op :: "timestamp \<Rightarrow> tx_op \<Rightarrow> db \<Rightarrow> db" where
  "apply_tx_op now (OpCreate session new_id data) s = snd (createTransaction session now new_id data s)"
| "apply_tx_op now (OpUpdate session ident data) s = snd (updateTransaction session now ident data s)"
| "apply_tx_op now (OpDelete session ident) s = snd (deleteTransaction session now ident s)"

definition replay :: "timestamp \<Rightarrow> tx_op list \<Rightarrow> db \<Rightarrow> db" where
  "replay now ops s = foldl (\<lambda>s' op. apply_tx_op now op s') s ops"

text \<open>
  The sum the trigger works towards: the amounts of the account's transactions now in the
  table whose date is in the window \<open>in_current_month\<close>.
\<close>

definition period_sum :: "timestamp \<Rightarrow> transaction list \<Rightarrow> uuid \<Rightarrow> numeric" where
  "period_sum now ts u =
     sum_list (map tx_amount (filter (\<lambda>t. tx_user_id t = u \<and> in_current_month now (tx_date t)) ts))"

text \<open>A date falls within the calendar month of \<open>now\<close>.\<close>

definition same_month :: "timestamp \<Rightarrow> timestamp \<Rightarrow> bool" where
  "same_month now d = (yr d = yr now \<and> mon d = mon now)"

text \<open>A date of the calendar with a time of day below 24 hours.\<close>

definition valid_date :: "timestamp \<Rightarrow> bool" where
  "valid_date d =
     (1 \<le> dom d \<and> dom d \<le> days_in_month (yr d) (mon d) \<and> tod d < 86400000 \<and> usec d < 1000)"

text \<open>
  Direct recomputation in the words of the specification: the sum of the amounts of the
  account's transactions whose date falls within the current statement period, the
  calendar month containing \<open>now\<close>.
\<close>

definition recomputed_balance :: "timestamp \<Rightarrow> transaction list \<Rightarrow> uuid \<Rightarrow> numeric" where
  "recomputed_balance now ts u =
     sum_list (map tx_amount (filter (\<lambda>t. tx_user_id t = u \<and> same_month now (tx_date t)) ts))"

text \<open>A date after 23:59:59.000000 on the last day of its month.\<close>

definition last_second :: "timestamp \<Rightarrow> bool" where
  "last_second d =
     (dom d = days_in_month (yr d) (mon d) \<and>
      (86399000 < tod d \<or> (tod d = 86399000 \<and> 0 < usec d)))"

text \<open>Every transaction of the table has a valid date outside the last second of a month.\<close>

definition dates_clear :: "transaction list \<Rightarrow> bool" where
  "dates_clear ts = list_all (\<lambda>t. valid_date (tx_date t) \<and> \<not> last_second (tx_date t)) ts"

definition balance_reconciled :: "timestamp \<Rightarrow> db \<Rightarrow> bool" where
  "balance_reconciled now s =
     list_all (\<lambda>p. balance p = period_sum now (transactions s) (profile_id p)) (profiles s)"

text \<open>Sequences of all the writes: transaction writes and the three pot functions.\<close>

datatype sys_op =
    TxOp tx_op
  | PotDeposit "uuid option" uuid "numeric option"
  | PotWithdraw "uuid option" uuid "numeric option"
  | PotDelete "uuid option" uuid

fun step :: "timestamp \<Rightarrow> sys_op \<Rightarrow> db \<Rightarrow> db" where
  "step now (TxOp op) s = apply_tx_op now op s"
| "step now (PotDeposit auth_uid pid amount) s = snd (pot_deposit auth_uid now pid amount s)"
| "step now (PotWithdraw auth_uid pid amount) s = snd (pot_withdraw auth_uid now pid amount s)"
| "step now (PotDelete auth_uid pid) s = snd (delete_pot auth_uid now pid s)"

text \<open>Each write of a sequence happens at its own \<open>now\<close>.\<close>

definition run :: "(timestamp \<times> sys_op) list \<Rightarrow> db \<Rightarrow> db" where
  "run writes s = foldl (\<lambda>s' w. step (fst w) (snd w) s') s writes"

text \<open>Every write of the sequence happens within the calendar month of \<open>now\<close>.\<close>

definition within_month :: "timestamp \<Rightarrow> (timestamp \<times> sys_op) list \<Rightarrow> bool" where
  "within_month now writes = list_all (\<lambda>w. same_month now (fst w)) writes"

text \<open>Balance plus the money held in the account's pots equals the sum of the window.\<close>

definition funds_reconciled :: "timestamp \<Rightarrow> db \<Rightarrow> bool" where
  "funds_reconciled now s =
     list_all (\<lambda>p. balance p + pots_total (pots s) (profile_id p) =
                   period_sum now (transactions s) (profile_id p)) (profiles s)"

text \<open>The same against the recomputation in the words of the specification.\<close>

definition spec_funds_reconciled :: "timestamp \<Rightarrow> db \<Rightarrow> bool" where
  "spec_funds_reconciled now s =
     list_all (\<lambda>p. balance p + pots_total (pots s) (profile_id p) =
                   recomputed_balance now (transactions s) (profile_id p)) (profiles s)"

definition spec_balance_reconciled :: "timestamp \<Rightarrow> db \<Rightarrow> bool" where
  "spec_balance_reconciled now s =
     list_all (\<lambda>p. balance p = recomputed_balance now (transactions s) (profile_id p)) (profiles s)"

section \<open>Client queries (client/src/lib/api.ts)\<close>

text \<open>
  What the client takes from its platform and cannot be read off the repository: the
  store's ordering of \<open>text\<close> and its \<open>ILIKE\<close>, and JavaScript's
  \<open>String.prototype.localeCompare\<close> and \<open>toLowerCase\<close>. They are parameters.
\<close>

record platform =
  pg_text_le :: "string \<Rightarrow> string \<Rightarrow> bool"
  pg_ilike :: "string \<Rightarrow> string \<Rightarrow> bool"
  localeCompare :: "string \<Rightarrow> string \<Rightarrow> int"
  toLowerCase :: "string \<Rightarrow> string"

text \<open>
  A stable sort by a comparison: an element goes before the first element it is not
  after, so equal elements keep their order. \<open>ORDER BY\<close> and
  \<open>Array.prototype.sort\<close> are both modelled by it; the store leaves the order of rows
  equal in the sort column open, and the table order is taken for it.
\<close>

fun insort_by :: "('a \<Rightarrow> 'a \<Rightarrow> bool) \<Rightarrow> 'a \<Rightarrow> 'a list \<Rightarrow> 'a list" where
  "insort_by le x [] = [x]"
| "insort_by le x (y # ys) = (if le x y then x # y # ys else y # insort_by le x ys)"

definition sort_by :: "('a \<Rightarrow> 'a \<Rightarrow> bool) \<Rightarrow> 'a list \<Rightarrow> 'a list" where
  "sort_by le xs = foldr (insort_by le) xs []"

datatype column = ColDate | ColName | ColAmount

text \<open>\<open>SORT_MAP\<close>: the column and the flag \<open>ascending\<close> of each sort option.\<close>

definition SORT_MAP :: "(string \<times> column \<times> bool) list" where
  "SORT_MAP =
     [(''Latest'', ColDate, False),
      (''Oldest'', ColDate, True),
      (''A to Z'', ColName, True),
      (''Z to A'', ColName, False),
      (''Highest'', ColAmount, False),
      (''Lowest'', ColAmount, True)]"

fun column_le :: "platform \<Rightarrow> column \<Rightarrow> transaction \<Rightarrow> transaction \<Rightarrow> bool" where
  "column_le pf ColDate a b = pg_le (tx_date a) (tx_date b)"
| "column_le pf ColName a b = pg_text_le pf (tx_name a) (tx_name b)"
| "column_le pf ColAmount a b = (tx_amount a \<le> tx_amount b)"

text \<open>\<open>.order(column, { ascending })\<close>\<close>

definition order_rows :: "platform \<Rightarrow> column \<Rightarrow> bool \<Rightarrow> transaction list \<Rightarrow> transaction list" where
  "order_rows pf col ascending rows =
     sort_by (\<lambda>a b. if ascending then column_le pf col a b else column_le pf col b a) rows"

record transaction_params =
  p_page :: "int option"
  p_limit :: "int option"
  p_search :: "string option"
  p_sort :: "string option"
  p_filter :: "string option"
  p_category :: "string option"

definition no_params :: transaction_params where
  "no_params = \<lparr>p_page = None, p_limit = None, p_search = None, p_sort = None,
                 p_filter = None, p_category = None\<rparr>"

record transactions_response =
  r_transactions :: "transaction list"
  r_total :: int
  r_page :: int
  r_pages :: int
  r_limit :: int

text \<open>
  \<open>getTransactions\<close> on the table \<open>transactions\<close>. Row-level security shows the caller
  the rows with \<open>user_id = auth.uid()\<close>. The store filters, orders and then cuts the
  range \<open>from..to\<close>; a range with a negative offset or no row in it is an error of the
  store, which the function throws.
\<close>

definition getTransactions ::
  "platform \<Rightarrow> uuid option \<Rightarrow> transaction_params \<Rightarrow> transaction list \<Rightarrow>
   error + transactions_response" where
  "getTransactions pf auth_uid params table =
     (let page = (case p_page params of None \<Rightarrow> 1 | Some v \<Rightarrow> v);
          limit = (case p_limit params of None \<Rightarrow> 10 | Some v \<Rightarrow> v);
          sort = (case p_sort params of None \<Rightarrow> ''Latest'' | Some v \<Rightarrow> v);
          (column, ascending) = (case map_of SORT_MAP sort of
                                   None \<Rightarrow> (ColDate, False) | Some e \<Rightarrow> e);
          category = (case p_filter params of None \<Rightarrow> p_category params | Some v \<Rightarrow> Some v);
          q0 = filter (own_row auth_uid) table;
          q1 = (case p_search params of
                  None \<Rightarrow> q0
                | Some search \<Rightarrow>
                    if search = [] then q0
                    else filter (\<lambda>t. pg_ilike pf (tx_name t) (''%'' @ search @ ''%'')) q0);
          q2 = (case category of
                  None \<Rightarrow> q1
                | Some c \<Rightarrow>
                    if c \<noteq> [] \<and> c \<noteq> ''All Transactions''
                    then filter (\<lambda>t. tx_category t = c) q1 else q1);
          query = order_rows pf column ascending q2;
          range_from = (page - 1) * limit;
          range_to = range_from + limit - 1
      in if range_from < 0 \<or> range_to < range_from then Inl StoreError
         else
           let data = take (nat (range_to - range_from + 1)) (drop (nat range_from) query);
               total = int (length query);
               pages = \<lceil>rat_of_int total / rat_of_int limit\<rceil>
           in Inr \<lparr>r_transactions = data, r_total = total, r_page = page,
                    r_pages = pages, r_limit = limit\<rparr>)"

section \<open>Recurring bills (getRecurringBills)\<close>

datatype bill_status = Paid | Upcoming | DueSoon

text \<open>\<open>RecurringBill\<close>: the transaction with \<open>status\<close> and \<open>dueDay\<close> added.\<close>

record recurring_bill =
  bill_tx :: transaction
  status :: bill_status
  dueDay :: nat

record recurring_params =
  rb_search :: "string option"
  rb_sort :: "string option"

text \<open>
  JavaScript numbers are IEEE doubles. \<open>to_double\<close> rounds a rational to the nearest
  double: 53 significant bits, the spacing of the subnormals below \<open>2^-1022\<close>, ties to
  the even significand. \<open>binade x\<close> is the exponent \<open>e\<close> with
  \<open>2^e \<le> |x| < 2^(e+1)\<close>.
\<close>

fun bit_length :: "nat \<Rightarrow> nat" where
  "bit_length n = (if n = 0 then 0 else Suc (bit_length (n div 2)))"

declare bit_length.simps [simp del]

definition pow2 :: "int \<Rightarrow> rat" where
  "pow2 k = (if 0 \<le> k then 2 ^ nat k else 1 / 2 ^ nat (- k))"

definition binade :: "rat \<Rightarrow> int" where
  "binade x =
     (let a = \<bar>x\<bar>;
          k = (if 1 \<le> a then int (bit_length (nat \<lfloor>a\<rfloor>)) - 1
               else 1 - int (bit_length (nat \<lfloor>1 / a\<rfloor>)))
      in if pow2 k \<le> a then k else k - 1)"

definition round_half_even :: "rat \<Rightarrow> int" where
  "round_half_even y =
     (let f = \<lfloor>y\<rfloor>; r = y - of_int f
      in if r < 1 / 2 then f else if 1 / 2 < r then f + 1 else if even f then f else f + 1)"

definition to_double :: "rat \<Rightarrow> rat" where
  "to_double x =
     (if x = 0 then 0
      else let e = max (binade x) (- 1022); ulp = pow2 (e - 52)
           in of_int (round_half_even (x / ulp)) * ulp)"

text \<open>
  A number value: a finite double or one of the three special values. \<open>js_number\<close> is
  the value a decimal of the store arrives as (\<open>b.amount\<close>), and the value an exact sum
  of two doubles is rounded to. The rounding overflows to an infinity when the rounded
  value reaches \<open>2^1024\<close>: its exponent is above 1023, or is 1023 with the significand
  rounded up to \<open>2^53\<close>.
\<close>

datatype jsnum = Double rat | PosInfinity | NegInfinity | NaN

definition overflows :: "rat \<Rightarrow> bool" where
  "overflows x =
     (x \<noteq> 0 \<and>
      (let e = binade x
       in 1023 < e \<or> (e = 1023 \<and> 2 ^ 53 \<le> \<bar>round_half_even (x / pow2 (e - 52))\<bar>)))"

definition js_number :: "rat \<Rightarrow> jsnum" where
  "js_number x =
     (if overflows x then (if 0 < x then PosInfinity else NegInfinity)
      else Double (to_double x))"

text \<open>\<open>Math.abs\<close>\<close>

fun js_abs :: "jsnum \<Rightarrow> jsnum" where
  "js_abs (Double r) = Double \<bar>r\<bar>"
| "js_abs PosInfinity = PosInfinity"
| "js_abs NegInfinity = PosInfinity"
| "js_abs NaN = NaN"

text \<open>The operator \<open>+\<close> on two numbers.\<close>

fun js_add :: "jsnum \<Rightarrow> jsnum \<Rightarrow> jsnum" where
  "js_add (Double a) (Double b) = js_number (a + b)"
| "js_add NaN y = NaN"
| "js_add x NaN = NaN"
| "js_add PosInfinity NegInfinity = NaN"
| "js_add NegInfinity PosInfinity = NaN"
| "js_add PosInfinity y = PosInfinity"
| "js_add x PosInfinity = PosInfinity"
| "js_add NegInfinity y = NegInfinity"
| "js_add x NegInfinity = NegInfinity"

record count_amount =
  s_count :: nat
  s_amount :: jsnum

record recurring_summary =
  sum_total :: nat
  sum_totalAmount :: jsnum
  sum_paid :: count_amount
  sum_upcoming :: count_amount
  sum_dueSoon :: count_amount

record recurring_response =
  resp_bills :: "recurring_bill list"
  resp_summary :: recurring_summary

text \<open>
  \<open>billMap\<close> is a JavaScript \<open>Map\<close>: \<open>set\<close> on a key already present replaces the
  value where the key stands, on a new key it appends; \<open>values()\<close> follows that order.
\<close>

fun map_set :: "string \<Rightarrow> transaction \<Rightarrow> (string \<times> transaction) list \<Rightarrow> (string \<times> transaction) list" where
  "map_set k v [] = [(k, v)]"
| "map_set k v ((k', v') # m) = (if k' = k then (k, v) # m else (k', v') # map_set k v m)"

text \<open>The body of the \<open>forEach\<close>: keep the later-dated transaction of each name.\<close>

definition billMap_step :: "(string \<times> transaction) list \<Rightarrow> transaction \<Rightarrow> (string \<times> transaction) list" where
  "billMap_step billMap tx =
     (case map_of billMap (tx_name tx) of
        None \<Rightarrow> map_set (tx_name tx) tx billMap
      | Some cur \<Rightarrow>
          if ts_less (tx_date cur) (tx_date tx) then map_set (tx_name tx) tx billMap else billMap)"

definition uniqueBills :: "transaction list \<Rightarrow> transaction list" where
  "uniqueBills allTransactions =
     (let recurringTransactions = filter (\<lambda>tx. tx_recurring tx \<and> tx_amount tx < 0) allTransactions;
          billMap = foldl billMap_step [] recurringTransactions
      in map snd billMap)"

text \<open>
  \<open>CURRENT_MONTH_END = new Date(CURRENT_YEAR, CURRENT_MONTH + 1, 0, 23, 59, 59, 999)\<close>:
  day 0 of the next month is the last day of this one. \<open>CURRENT_MONTH_START\<close> is
  \<open>month_start\<close>.
\<close>

definition CURRENT_MONTH_END :: "timestamp \<Rightarrow> timestamp" where
  "CURRENT_MONTH_END now =
     \<lparr>yr = yr now, mon = mon now, dom = days_in_month (yr now) (mon now), tod = 86399999, usec = 0\<rparr>"

text \<open>The function mapped over \<open>uniqueBills\<close>.\<close>

definition classify :: "timestamp \<Rightarrow> transaction \<Rightarrow> recurring_bill" where
  "classify now tx =
     (let CURRENT_DATE = dom now;
          billDate = tx_date tx;
          dueDay = dom billDate;
          isPaidThisMonth = (ts_le (month_start now) billDate \<and> ts_le billDate (CURRENT_MONTH_END now));
          status = (if isPaidThisMonth then Paid
                    else if dueDay > CURRENT_DATE \<and> dueDay \<le> CURRENT_DATE + 5 then DueSoon
                    else Upcoming)
      in \<lparr>bill_tx = tx, status = status, dueDay = dueDay\<rparr>)"

definition classified :: "timestamp \<Rightarrow> transaction list \<Rightarrow> recurring_bill list" where
  "classified now allTransactions = map (classify now) (uniqueBills allTransactions)"

text \<open>\<open>String.prototype.includes\<close> (\<open>includes\<close> is a keyword here).\<close>

fun starts_with :: "string \<Rightarrow> string \<Rightarrow> bool" where
  "starts_with s [] = True"
| "starts_with [] (c # cs) = False"
| "starts_with (x # xs) (c # cs) = (x = c \<and> starts_with xs cs)"

fun str_includes :: "string \<Rightarrow> string \<Rightarrow> bool" where
  "str_includes [] sub = (sub = [])"
| "str_includes (x # xs) sub = (starts_with (x # xs) sub \<or> str_includes xs sub)"

text \<open>
  The comparison function of \<open>filteredBills.sort\<close>, by sort option. Amounts are compared
  as the decimals of the store; the doubles the client holds compare the same way unless
  two different decimals round to one double.
\<close>

definition bill_compare :: "platform \<Rightarrow> string \<Rightarrow> recurring_bill \<Rightarrow> recurring_bill \<Rightarrow> numeric" where
  "bill_compare pf sortOption a b =
     (if sortOption = ''Latest'' then of_nat (dueDay a) - of_nat (dueDay b)
      else if sortOption = ''Oldest'' then of_nat (dueDay b) - of_nat (dueDay a)
      else if sortOption = ''A to Z''
        then of_int (localeCompare pf (tx_name (bill_tx a)) (tx_name (bill_tx b)))
      else if sortOption = ''Z to A''
        then of_int (localeCompare pf (tx_name (bill_tx b)) (tx_name (bill_tx a)))
      else if sortOption = ''Highest'' then \<bar>tx_amount (bill_tx b)\<bar> - \<bar>tx_amount (bill_tx a)\<bar>
      else if sortOption = ''Lowest'' then \<bar>tx_amount (bill_tx a)\<bar> - \<bar>tx_amount (bill_tx b)\<bar>
      else 0)"

text \<open>\<open>Array.prototype.sort(compareFn)\<close>: stable; \<open>a\<close> stays before \<open>b\<close> unless \<open>compareFn(a, b) > 0\<close>.\<close>

definition js_sort :: "('a \<Rightarrow> 'a \<Rightarrow> numeric) \<Rightarrow> 'a list \<Rightarrow> 'a list" where
  "js_sort compareFn xs = sort_by (\<lambda>a b. compareFn a b \<le> 0) xs"

text \<open>
  \<open>bs.reduce((sum, b) => sum + Math.abs(b.amount), 0)\<close>: the doubles are added in
  the order of the array, each sum rounded.
\<close>

definition abs_sum :: "recurring_bill list \<Rightarrow> jsnum" where
  "abs_sum bs =
     foldl (\<lambda>sum b. js_add sum (js_abs (js_number (tx_amount (bill_tx b))))) (Double 0) bs"

definition summary_of :: "recurring_bill list \<Rightarrow> recurring_summary" where
  "summary_of bills =
     (let paidBills = filter (\<lambda>b. status b = Paid) bills;
          upcomingBills = filter (\<lambda>b. status b = Upcoming \<or> status b = DueSoon) bills;
          dueSoonBills = filter (\<lambda>b. status b = DueSoon) bills
      in \<lparr>sum_total = length upcomingBills,
          sum_totalAmount = abs_sum upcomingBills,
          sum_paid = \<lparr>s_count = length paidBills, s_amount = abs_sum paidBills\<rparr>,
          sum_upcoming = \<lparr>s_count = length upcomingBills, s_amount = abs_sum upcomingBills\<rparr>,
          sum_dueSoon = \<lparr>s_count = length dueSoonBills, s_amount = abs_sum dueSoonBills\<rparr>\<rparr>)"

text \<open>
  The body of \<open>getRecurringBills\<close> after the fetch. Without a search (or with the empty
  string, which is falsy) \<open>filteredBills\<close> is the array \<open>bills\<close> itself, so the sort in
  place reorders \<open>bills\<close> before the summary is taken from it; with a search
  \<open>filteredBills\<close> is a new array and \<open>bills\<close> keeps its order.
\<close>

definition recurring_bills_of ::
  "platform \<Rightarrow> timestamp \<Rightarrow> recurring_params \<Rightarrow> transaction list \<Rightarrow> recurring_response" where
  "recurring_bills_of pf now params allTransactions =
     (let bills = classified now allTransactions;
          sortOption = (case rb_sort params of None \<Rightarrow> ''Latest'' | Some v \<Rightarrow> v);
          (filteredBills, bills') =
            (case rb_search params of
               None \<Rightarrow> (let sorted_bills = js_sort (bill_compare pf sortOption) bills
                         in (sorted_bills, sorted_bills))
             | Some search \<Rightarrow>
                 if search = []
                 then (let sorted_bills = js_sort (bill_compare pf sortOption) bills
                       in (sorted_bills, sorted_bills))
                 else
                   (let searchLower = toLowerCase pf search
                    in (js_sort (bill_compare pf sortOption)
                          (filter (\<lambda>b. str_includes (toLowerCase pf (tx_name (bill_tx b))) searchLower)
                             bills),
                        bills)))
      in \<lparr>resp_bills = filteredBills, resp_summary = summary_of bills'\<rparr>)"

text \<open>\<open>getRecurringBills\<close>: one page of at most 500 transactions, latest first.\<close>

definition getRecurringBills ::
  "platform \<Rightarrow> uuid option \<Rightarrow> timestamp \<Rightarrow> recurring_params \<Rightarrow> transaction list \<Rightarrow>
   error + recurring_response" where
  "getRecurringBills pf auth_uid now params table =
     (case getTransactions pf auth_uid (no_params\<lparr>p_limit := Some 500\<rparr>) table of
        Inl e \<Rightarrow> Inl e
      | Inr response \<Rightarrow> Inr (recurring_bills_of pf now params (r_transactions response)))"

section \<open>Quantities used in the proofs\<close>

text \<open>What one transaction adds to the period sum of account \<open>u\<close>.\<close>

definition contrib :: "timestamp \<Rightarrow> uuid \<Rightarrow> transaction \<Rightarrow> numeric" where
  "contrib now u t = (if tx_user_id t = u \<and> in_current_month now (tx_date t) then tx_amount t else 0)"

text \<open>A property of every profile row, stated on its id and balance.\<close>

definition bal_all :: "(uuid \<Rightarrow> numeric \<Rightarrow> bool) \<Rightarrow> profile list \<Rightarrow> bool" where
  "bal_all Q ps = list_all (\<lambda>p. Q (profile_id p) (balance p)) ps"

text \<open>What one firing of the trigger adds to the balance of account \<open>u\<close>.\<close>

fun tg_delta :: "timestamp \<Rightarrow> tg_event \<Rightarrow> uuid \<Rightarrow> numeric" where
  "tg_delta now (TG_INSERT new) u = contrib now u new"
| "tg_delta now (TG_UPDATE old new) u = contrib now u new - contrib now u old"
| "tg_delta now (TG_DELETE old) u = - contrib now u old"

text \<open>The invariant of the store under all writes.\<close>

definition sys_inv :: "timestamp \<Rightarrow> db \<Rightarrow> bool" where
  "sys_inv now s = (pots_pk s \<and> pots_check s \<and> funds_reconciled now s)"

text \<open>Properties of a comparison under which the stable sort yields a sorted list.\<close>

definition total_rel :: "('a \<Rightarrow> 'a \<Rightarrow> bool) \<Rightarrow> bool" where
  "total_rel le = (\<forall>a b. le a b \<or> le b a)"

definition trans_rel :: "('a \<Rightarrow> 'a \<Rightarrow> bool) \<Rightarrow> bool" where
  "trans_rel le = (\<forall>a b c. le a b \<longrightarrow> le b c \<longrightarrow> le a c)"

text \<open>The filter of \<open>getRecurringBills\<close>: \<open>tx.recurring && tx.amount < 0\<close>.\<close>

definition recurring_expense :: "transaction \<Rightarrow> bool" where
  "recurring_expense tx = (tx_recurring tx \<and> tx_amount tx < 0)"

text \<open>The invariant of \<open>billMap\<close> over the transactions already visited.\<close>

definition bm_inv :: "(string \<times> transaction) list \<Rightarrow> transaction list \<Rightarrow> bool" where
  "bm_inv m seen =
     (distinct (map fst m) \<and> fst ` set m = tx_name ` set seen \<and>
      (\<forall>(k, v) \<in> set m. tx_name v = k \<and> v \<in> set seen \<and>
          (\<forall>t \<in> set seen. tx_name t = k \<longrightarrow> \<not> ts_less (tx_date v) (tx_date t))))"

definition refl_rel :: "('a \<Rightarrow> 'a \<Rightarrow> bool) \<Rightarrow> bool" where
  "refl_rel le = (\<forall>a. le a a)"

text \<open>The page \<open>getRecurringBills\<close> fetches: the first 500 of the caller's rows, latest first.\<close>

definition page500 :: "platform \<Rightarrow> uuid option \<Rightarrow> transaction list \<Rightarrow> transaction list" where
  "page500 pf auth_uid table = take 500 (order_rows pf ColDate False (filter (own_row auth_uid) table))"

text \<open>The four counts of a summary: total, paid, upcoming, due soon.\<close>

definition counts_of :: "recurring_summary \<Rightarrow> nat \<times> nat \<times> nat \<times> nat" where
  "counts_of sm =
     (sum_total sm, s_count (sum_paid sm), s_count (sum_upcoming sm), s_count (sum_dueSoon sm))"

section \<open>Example data\<close>

definition t0 :: timestamp where
  "t0 = \<lparr>yr = 2024, mon = 1, dom = 1, tod = 0, usec = 0\<rparr>"

definition ex_now :: timestamp where
  "ex_now = \<lparr>yr = 2024, mon = 3, dom = 15, tod = 43200000, usec = 0\<rparr>"

text \<open>
  Two accounts with a profile row, and a third user (3) who owns a pot but has no profile
  row: \<open>pots.user_id\<close> references \<open>auth.users\<close>, not \<open>profiles\<close>.
\<close>

definition ex_db :: db where
  "ex_db = \<lparr>profiles =
             [\<lparr>profile_id = 1, full_name = ''Ada'', balance = 500, profile_updated_at = t0\<rparr>,
              \<lparr>profile_id = 2, full_name = ''Bob'', balance = 70, profile_updated_at = t0\<rparr>],
           transactions = [],
           pots =
             [\<lparr>pot_id = 10, pot_user_id = 1, pot_name = ''Holiday'', pot_target = 2000,
               pot_total = 120, pot_theme = ''green'', pot_updated_at = t0\<rparr>,
              \<lparr>pot_id = 11, pot_user_id = 2, pot_name = ''Bike'', pot_target = 300,
               pot_total = 0, pot_theme = ''cyan'', pot_updated_at = t0\<rparr>,
              \<lparr>pot_id = 12, pot_user_id = 3, pot_name = ''Gift'', pot_target = 50,
               pot_total = 0, pot_theme = ''red'', pot_updated_at = t0\<rparr>]\<rparr>"

text \<open>Two new accounts with empty pots, and writes on them.\<close>

definition ex_fresh :: db where
  "ex_fresh = \<lparr>profiles =
             [\<lparr>profile_id = 1, full_name = ''Ada'', balance = 0, profile_updated_at = t0\<rparr>,
              \<lparr>profile_id = 2, full_name = ''Bob'', balance = 0, profile_updated_at = t0\<rparr>],
           transactions = [],
           pots =
             [\<lparr>pot_id = 10, pot_user_id = 1, pot_name = ''Holiday'', pot_target = 2000,
               pot_total = 0, pot_theme = ''green'', pot_updated_at = t0\<rparr>,
              \<lparr>pot_id = 11, pot_user_id = 2, pot_name = ''Bike'', pot_target = 300,
               pot_total = 0, pot_theme = ''cyan'', pot_updated_at = t0\<rparr>]\<rparr>"

definition ex_salary :: tx_input where
  "ex_salary = \<lparr>in_name = ''Salary'', in_amount = 1000, in_category = ''General'',
                in_date = \<lparr>yr = 2024, mon = 3, dom = 1, tod = 32400000, usec = 0\<rparr>,
                in_avatar = None, in_recurring = None\<rparr>"

definition ex_rent :: tx_input where
  "ex_rent = \<lparr>in_name = ''Rent'', in_amount = - 200, in_category = ''Bills'',
              in_date = \<lparr>yr = 2024, mon = 2, dom = 28, tod = 0, usec = 0\<rparr>,
              in_avatar = None, in_recurring = Some True\<rparr>"

definition ex_cinema :: tx_input where
  "ex_cinema = \<lparr>in_name = ''Cinema'', in_amount = - 50, in_category = ''Entertainment'',
                in_date = \<lparr>yr = 2024, mon = 3, dom = 10, tod = 0, usec = 0\<rparr>,
                in_avatar = None, in_recurring = None\<rparr>"

text \<open>A refund booked half a second before the end of March.\<close>

definition ex_late :: tx_input where
  "ex_late = \<lparr>in_name = ''Refund'', in_amount = 75, in_category = ''General'',
              in_date = \<lparr>yr = 2024, mon = 3, dom = 31, tod = 86399500, usec = 0\<rparr>,
              in_avatar = None, in_recurring = None\<rparr>"

definition no_patch :: tx_patch where
  "no_patch = \<lparr>patch_name = None, patch_amount = None, patch_category = None,
               patch_date = None, patch_avatar = None, patch_recurring = None\<rparr>"

definition ex_tx_ops :: "tx_op list" where
  "ex_tx_ops =
     [OpCreate (Some 1) 100 ex_salary,
      OpCreate (Some 1) 101 ex_rent,
      OpUpdate (Some 1) 100 (no_patch\<lparr>patch_amount := Some 900\<rparr>),
      OpCreate (Some 1) 102 ex_cinema,
      OpUpdate (Some 1) 101 (no_patch\<lparr>patch_date := Some \<lparr>yr = 2024, mon = 3, dom = 2, tod = 0, usec = 0\<rparr>\<rparr>),
      OpDelete (Some 1) 102,
      OpDelete (Some 2) 100]"

text \<open>Later in March, and after the month has changed.\<close>

definition ex_later :: timestamp where
  "ex_later = \<lparr>yr = 2024, mon = 3, dom = 20, tod = 64800000, usec = 0\<rparr>"

definition ex_april :: timestamp where
  "ex_april = \<lparr>yr = 2024, mon = 4, dom = 2, tod = 36000000, usec = 0\<rparr>"

definition ex_april_cinema :: tx_input where
  "ex_april_cinema = \<lparr>in_name = ''Cinema'', in_amount = - 50, in_category = ''Entertainment'',
                      in_date = \<lparr>yr = 2024, mon = 4, dom = 2, tod = 0, usec = 0\<rparr>,
                      in_avatar = None, in_recurring = None\<rparr>"

definition ex_deposit_writes :: "(timestamp \<times> sys_op) list" where
  "ex_deposit_writes =
     [(ex_now, TxOp (OpCreate (Some 1) 100 ex_salary)),
      (ex_now, PotDeposit (Some 1) 10 (Some 300))]"

definition ex_april_writes :: "(timestamp \<times> sys_op) list" where
  "ex_april_writes =
     [(ex_now, TxOp (OpCreate (Some 1) 100 ex_salary)),
      (ex_april, TxOp (OpCreate (Some 1) 104 ex_april_cinema))]"

definition ex_march_writes :: "(timestamp \<times> sys_op) list" where
  "ex_march_writes =
     [(ex_now, TxOp (OpCreate (Some 1) 100 ex_salary)),
      (ex_now, PotDeposit (Some 1) 10 (Some 300)),
      (ex_later, PotWithdraw (Some 1) 10 (Some 100)),
      (ex_later, TxOp (OpCreate (Some 1) 102 ex_cinema))]"


text \<open>
  A sample platform: strings compared byte by byte, ASCII letters lower-cased, and
  \<open>ILIKE\<close> for patterns whose only wildcards are the \<open>%\<close> around the search string.
\<close>

fun bytes_le :: "string \<Rightarrow> string \<Rightarrow> bool" where
  "bytes_le [] b = True"
| "bytes_le (x # xs) [] = False"
| "bytes_le (x # xs) (y # ys) =
     ((of_char x :: nat) < of_char y \<or> (x = y \<and> bytes_le xs ys))"

definition ascii_lower :: "string \<Rightarrow> string" where
  "ascii_lower s =
     map (\<lambda>c. case map_of (zip ''ABCDEFGHIJKLMNOPQRSTUVWXYZ'' ''abcdefghijklmnopqrstuvwxyz'') c of
                None \<Rightarrow> c | Some l \<Rightarrow> l) s"

definition ex_pf :: platform where
  "ex_pf = \<lparr>pg_text_le = bytes_le,
            pg_ilike = (\<lambda>name pattern.
               str_includes (ascii_lower name) (ascii_lower (filter (\<lambda>c. c \<noteq> CHR ''%'') pattern))),
            localeCompare = (\<lambda>a b. if a = b then 0 else if bytes_le a b then - 1 else 1),
            toLowerCase = ascii_lower\<rparr>"

text \<open>
  Sample transactions. At \<open>ex_now\<close>, 15 March 2024, Netflix is paid, the gym is due soon
  and the rent is upcoming; the salary is no expense and Spotify belongs to another user.
\<close>

definition ex_tx :: "uuid \<Rightarrow> uuid \<Rightarrow> string \<Rightarrow> int \<Rightarrow> nat \<Rightarrow> nat \<Rightarrow> numeric \<Rightarrow> bool \<Rightarrow> transaction" where
  "ex_tx i u n y m d a r =
     \<lparr>tx_id = i, tx_user_id = u, tx_avatar = ''/assets/images/avatars/default.jpg'',
      tx_name = n, tx_category = ''Bills'',
      tx_date = \<lparr>yr = y, mon = m, dom = d, tod = 0, usec = 0\<rparr>, tx_amount = a, tx_recurring = r\<rparr>"

definition ex_txs :: "transaction list" where
  "ex_txs =
     [ex_tx 201 1 ''Netflix'' 2024 2 20 (- 15) True,
      ex_tx 202 1 ''Netflix'' 2024 3 5 (- 15) True,
      ex_tx 203 1 ''Gym'' 2024 2 18 (- 40) True,
      ex_tx 204 1 ''Rent'' 2024 2 1 (- 900) True,
      ex_tx 205 1 ''Salary'' 2024 3 1 2500 False,
      ex_tx 206 2 ''Spotify'' 2024 2 17 (- 10) True]"

text \<open>
  Projections of the two responses, for stating examples.
\<close>

definition amounts_listed :: "error + transactions_response \<Rightarrow> error + numeric list" where
  "amounts_listed res = map_sum id (\<lambda>r. map tx_amount (r_transactions r)) res"

definition bills_listed :: "error + recurring_response \<Rightarrow> error + (string \<times> bill_status \<times> nat) list" where
  "bills_listed res =
     map_sum id (\<lambda>r. map (\<lambda>b. (tx_name (bill_tx b), status b, dueDay b)) (resp_bills r)) res"

definition ex_gym :: transaction where
  "ex_gym = ex_tx 203 1 ''Gym'' 2024 2 18 (- 40) True"

definition ex_netflix_feb :: transaction where
  "ex_netflix_feb = ex_tx 201 1 ''Netflix'' 2024 2 20 (- 15) True"

definition ex_netflix_mar :: transaction where
  "ex_netflix_mar = ex_tx 202 1 ''Netflix'' 2024 3 5 (- 15) True"

text \<open>
  A table of 501 rows of one user: 500 dated 1 March 2024 and a recurring expense of 2020.
\<close>

definition ex_old :: transaction where
  "ex_old = ex_tx 9000 1 ''Old Gym'' 2020 1 15 (- 30) True"

definition ex_big :: "transaction list" where
  "ex_big = map (\<lambda>i. ex_tx i 1 ''Water'' 2024 3 1 (- 20) True) [0..<500] @ [ex_old]"

definition no_search :: recurring_params where
  "no_search = \<lparr>rb_search = None, rb_sort = None\<rparr>"

text \<open>
  Three recurring expenses of 0.1, 0.2 and 0.3, none paid at \<open>ex_now\<close>: fetched latest
  first they come as tea, bus, app; by due day as app, bus, tea.
\<close>

definition ex_dimes :: "transaction list" where
  "ex_dimes =
     [ex_tx 301 1 ''Tea'' 2024 2 3 (- (1 / 10)) True,
      ex_tx 302 1 ''Bus'' 2024 1 2 (- (2 / 10)) True,
      ex_tx 303 1 ''App'' 2023 12 1 (- (3 / 10)) True]"

text \<open>The total amount of a response.\<close>

definition total_amount_of :: "error + recurring_response \<Rightarrow> error + jsnum" where
  "total_amount_of res = map_sum id (\<lambda>r. sum_totalAmount (resp_summary r)) res"

text \<open>The four counts of a response.\<close>

definition counts_listed :: "error + recurring_response \<Rightarrow> error + nat \<times> nat \<times> nat \<times> nat" where
  "counts_listed res = map_sum id (\<lambda>r. counts_of (resp_summary r)) res"
section \<open>Helper lemmas on the row updates\<close>

lemma select_profile_add_balance:
  "select_profile u (add_balance now u d ps) =
     map_option (\<lambda>p. p\<lparr>balance := balance p + d, profile_updated_at := now\<rparr>) (select_profile u ps)"
  by (induction ps) (auto simp: select_profile_def add_balance_def)

lemma select_profile_add_balance_other:
  "u' \<noteq> u \<Longrightarrow> select_profile u' (add_balance now u d ps) = select_profile u' ps"
  by (induction ps) (auto simp: select_profile_def add_balance_def)

lemma select_pot_by_id_add_total:
  "select_pot_by_id pid (add_total now pid d ps) =
     map_option (\<lambda>p. p\<lparr>pot_total := pot_total p + d, pot_updated_at := now\<rparr>) (select_pot_by_id pid ps)"
  by (induction ps) (auto simp: select_pot_by_id_def add_total_def)

lemma filter_add_balance_other:
  "filter (\<lambda>p. profile_id p \<noteq> u) (add_balance now u d ps) = filter (\<lambda>p. profile_id p \<noteq> u) ps"
  by (induction ps) (auto simp: add_balance_def)

lemma filter_add_total_other:
  "filter (\<lambda>p. pot_id p \<noteq> pid) (add_total now pid d ps) = filter (\<lambda>p. pot_id p \<noteq> pid) ps"
  by (induction ps) (auto simp: add_total_def)

lemma select_pot_by_id_of_select_pot:
  "select_pot pid u ps = Some p \<Longrightarrow> distinct (map pot_id ps) \<Longrightarrow> select_pot_by_id pid ps = Some p"
proof (induction ps)
  case Nil
  then show ?case by (simp add: select_pot_def)
next
  case (Cons q qs)
  show ?case
  proof (cases "pot_id q = pid")
    case True
    have "pot_user_id q = u"
    proof (rule ccontr)
      assume "pot_user_id q \<noteq> u"
      with Cons.prems(1) have "find (\<lambda>p. pot_id p = pid \<and> pot_user_id p = u) qs = Some p"
        by (simp add: select_pot_def)
      then have "p \<in> set qs" "pot_id p = pid"
        by (auto simp: find_Some_iff)
      with Cons.prems(2) True show False by (auto simp: image_iff)
    qed
    with True Cons.prems(1) show ?thesis
      by (simp add: select_pot_def select_pot_by_id_def)
  next
    case False
    with Cons show ?thesis
      by (simp add: select_pot_def select_pot_by_id_def)
  qed
qed

lemma select_pot_SomeD:
  "select_pot pid u ps = Some p \<Longrightarrow> p \<in> set ps \<and> pot_id p = pid \<and> pot_user_id p = u"
  by (auto simp: select_pot_def find_Some_iff)
section \<open>Pot transfers: conservation, outcomes, atomicity\<close>

lemma select_pot_add_total:
  "select_pot pid u (add_total now pid d ps) =
     map_option (\<lambda>p. p\<lparr>pot_total := pot_total p + d, pot_updated_at := now\<rparr>) (select_pot pid u ps)"
  by (induction ps) (auto simp: select_pot_def add_total_def)

lemma map_id_add_balance: "map profile_id (add_balance now u d ps) = map profile_id ps"
  by (induction ps) (auto simp: add_balance_def)

lemma map_id_add_total: "map pot_id (add_total now pid d ps) = map pot_id ps"
  by (induction ps) (auto simp: add_total_def)

lemma deposit_successD:
  assumes "pot_deposit auth now pid amount s = (Inr r, s')"
  obtains u a p pr where "auth = Some u" "amount = Some a" "0 < a"
    "select_pot pid u (pots s) = Some p" "select_profile u (profiles s) = Some pr"
    "\<not> balance pr < a"
    "s' = s\<lparr>profiles := add_balance now u (- a) (profiles s), pots := add_total now pid a (pots s)\<rparr>"
  using assms
  by (auto simp: pot_deposit_def Let_def split: option.splits if_splits)

lemma withdraw_successD:
  assumes "pot_withdraw auth now pid amount s = (Inr r, s')"
  obtains u a p where "auth = Some u" "amount = Some a" "0 < a"
    "select_pot pid u (pots s) = Some p" "\<not> pot_total p < a"
    "s' = s\<lparr>pots := add_total now pid (- a) (pots s), profiles := add_balance now u a (profiles s)\<rparr>"
  using assms
  by (auto simp: pot_withdraw_def Let_def split: option.splits if_splits)

lemma deposit_success:
  assumes "pot_deposit auth now pid amount s = (Inr r, s')"
  shows "\<exists>u a b t. auth = Some u \<and> amount = Some a \<and> 0 < a \<and>
           balance_of s u = Some b \<and> total_of s u pid = Some t \<and>
           balance_of s' u = Some (b - a) \<and> total_of s' u pid = Some (t + a) \<and>
           pot_plus_balance s' u pid = pot_plus_balance s u pid \<and>
           other_profiles u s' = other_profiles u s \<and> other_pots pid s' = other_pots pid s \<and>
           map profile_id (profiles s') = map profile_id (profiles s) \<and>
           map pot_id (pots s') = map pot_id (pots s) \<and>
           transactions s' = transactions s"
proof -
  from assms obtain u a p pr where h: "auth = Some u" "amount = Some a" "0 < a"
    "select_pot pid u (pots s) = Some p" "select_profile u (profiles s) = Some pr"
    "s' = s\<lparr>profiles := add_balance now u (- a) (profiles s), pots := add_total now pid a (pots s)\<rparr>"
    by (rule deposit_successD)
  have "balance_of s u = Some (balance pr)" "total_of s u pid = Some (pot_total p)"
    using h by (simp_all add: balance_of_def total_of_def)
  moreover have "balance_of s' u = Some (balance pr - a)" "total_of s' u pid = Some (pot_total p + a)"
    using h by (simp_all add: balance_of_def total_of_def select_profile_add_balance select_pot_add_total)
  moreover have "other_profiles u s' = other_profiles u s" "other_pots pid s' = other_pots pid s"
    using h by (simp_all add: other_profiles_def other_pots_def filter_add_balance_other filter_add_total_other)
  moreover have "map profile_id (profiles s') = map profile_id (profiles s)"
    "map pot_id (pots s') = map pot_id (pots s)" "transactions s' = transactions s"
    using h by (simp_all add: map_id_add_balance map_id_add_total)
  ultimately show ?thesis using h(1,2,3)
    by (simp add: pot_plus_balance_def)
qed

lemma withdraw_success:
  assumes "pot_withdraw auth now pid amount s = (Inr r, s')"
  shows "\<exists>u a t. auth = Some u \<and> amount = Some a \<and> 0 < a \<and> total_of s u pid = Some t \<and>
           total_of s' u pid = Some (t - a) \<and>
           (\<forall>b. balance_of s u = Some b \<longrightarrow>
              balance_of s' u = Some (b + a) \<and>
              pot_plus_balance s' u pid = pot_plus_balance s u pid) \<and>
           other_profiles u s' = other_profiles u s \<and> other_pots pid s' = other_pots pid s \<and>
           map profile_id (profiles s') = map profile_id (profiles s) \<and>
           map pot_id (pots s') = map pot_id (pots s) \<and>
           transactions s' = transactions s"
proof -
  from assms obtain u a p where h: "auth = Some u" "amount = Some a" "0 < a"
    "select_pot pid u (pots s) = Some p"
    "s' = s\<lparr>pots := add_total now pid (- a) (pots s), profiles := add_balance now u a (profiles s)\<rparr>"
    by (rule withdraw_successD)
  have "total_of s u pid = Some (pot_total p)"
    using h by (simp add: total_of_def)
  moreover have "total_of s' u pid = Some (pot_total p - a)"
    using h by (simp add: total_of_def select_pot_add_total)
  moreover have "\<forall>b. balance_of s u = Some b \<longrightarrow> balance_of s' u = Some (b + a)"
    using h by (auto simp: balance_of_def select_profile_add_balance)
  moreover have "other_profiles u s' = other_profiles u s" "other_pots pid s' = other_pots pid s"
    using h by (simp_all add: other_profiles_def other_pots_def filter_add_balance_other filter_add_total_other)
  moreover have "map profile_id (profiles s') = map profile_id (profiles s)"
    "map pot_id (pots s') = map pot_id (pots s)" "transactions s' = transactions s"
    using h by (simp_all add: map_id_add_balance map_id_add_total)
  ultimately show ?thesis using h(1,2,3)
    by (simp add: pot_plus_balance_def)
qed

lemmas ex_simps = pot_deposit_def pot_withdraw_def delete_pot_def ex_db_def select_pot_def select_profile_def
   add_balance_def add_total_def select_pot_by_id_def Let_def balance_of_def total_of_def pot_plus_balance_def

text \<open>
  What holds of the two transfers. Every successful \<open>pot_deposit\<close> takes exactly the
  amount off the caller's balance and adds exactly the amount to the pot's total; every
  successful \<open>pot_withdraw\<close> takes the amount off the pot and, where the caller has a
  profile row, adds it to the balance. Then the sum of the pot's total and the balance is
  the same before and after; the rows of other accounts, the rows of other pots and the
  transactions are untouched, and no row is added or removed.
\<close>

lemma pot_transfer_conservation:
  "(pot_deposit auth now pid amount s = (Inr r, s') \<longrightarrow>
      (\<exists>u a b t. auth = Some u \<and> amount = Some a \<and> 0 < a \<and>
           balance_of s u = Some b \<and> total_of s u pid = Some t \<and>
           balance_of s' u = Some (b - a) \<and> total_of s' u pid = Some (t + a) \<and>
           pot_plus_balance s' u pid = pot_plus_balance s u pid \<and>
           other_profiles u s' = other_profiles u s \<and> other_pots pid s' = other_pots pid s \<and>
           map profile_id (profiles s') = map profile_id (profiles s) \<and>
           map pot_id (pots s') = map pot_id (pots s) \<and>
           transactions s' = transactions s)) \<and>
   (pot_withdraw auth now pid amount s = (Inr r, s') \<longrightarrow>
      (\<exists>u a t. auth = Some u \<and> amount = Some a \<and> 0 < a \<and> total_of s u pid = Some t \<and>
           total_of s' u pid = Some (t - a) \<and>
           (\<forall>b. balance_of s u = Some b \<longrightarrow>
              balance_of s' u = Some (b + a) \<and>
              pot_plus_balance s' u pid = pot_plus_balance s u pid) \<and>
           other_profiles u s' = other_profiles u s \<and> other_pots pid s' = other_pots pid s \<and>
           map profile_id (profiles s') = map profile_id (profiles s) \<and>
           map pot_id (pots s') = map pot_id (pots s) \<and>
           transactions s' = transactions s))"
proof (intro conjI impI)
  assume "pot_deposit auth now pid amount s = (Inr r, s')"
  then show "\<exists>u a b t. auth = Some u \<and> amount = Some a \<and> 0 < a \<and>
           balance_of s u = Some b \<and> total_of s u pid = Some t \<and>
           balance_of s' u = Some (b - a) \<and> total_of s' u pid = Some (t + a) \<and>
           pot_plus_balance s' u pid = pot_plus_balance s u pid \<and>
           other_profiles u s' = other_profiles u s \<and> other_pots pid s' = other_pots pid s \<and>
           map profile_id (profiles s') = map profile_id (profiles s) \<and>
           map pot_id (pots s') = map pot_id (pots s) \<and>
           transactions s' = transactions s"
    by (rule deposit_success)
next
  assume "pot_withdraw auth now pid amount s = (Inr r, s')"
  then show "\<exists>u a t. auth = Some u \<and> amount = Some a \<and> 0 < a \<and> total_of s u pid = Some t \<and>
           total_of s' u pid = Some (t - a) \<and>
           (\<forall>b. balance_of s u = Some b \<longrightarrow>
              balance_of s' u = Some (b + a) \<and>
              pot_plus_balance s' u pid = pot_plus_balance s u pid) \<and>
           other_profiles u s' = other_profiles u s \<and> other_pots pid s' = other_pots pid s \<and>
           map profile_id (profiles s') = map profile_id (profiles s) \<and>
           map pot_id (pots s') = map pot_id (pots s) \<and>
           transactions s' = transactions s"
    by (rule withdraw_success)
qed

text \<open>A deposit of 30 and a withdrawal of 20 on the example store.\<close>

lemma pot_transfer_conservation_example:
  "(\<exists>r s'. pot_deposit (Some 1) ex_now 10 (Some 30) ex_db = (Inr r, s') \<and>
       balance_of s' 1 = Some 470 \<and> total_of s' 1 10 = Some 150 \<and>
       pot_plus_balance s' 1 10 = Some 620 \<and> other_profiles 1 s' = other_profiles 1 ex_db) \<and>
   (\<exists>r s'. pot_withdraw (Some 1) ex_now 10 (Some 20) ex_db = (Inr r, s') \<and>
       balance_of s' 1 = Some 520 \<and> total_of s' 1 10 = Some 100 \<and>
       pot_plus_balance s' 1 10 = Some 620 \<and> other_pots 10 s' = other_pots 10 ex_db)"
proof -
  have b: "balance_of ex_db 1 = Some 500" and t: "total_of ex_db 1 10 = Some 120"
    and pb: "pot_plus_balance ex_db 1 10 = Some 620"
    by (simp_all add: ex_simps)
  obtain r1 s1 where d: "pot_deposit (Some 1) ex_now 10 (Some 30) ex_db = (Inr r1, s1)"
    by (simp add: ex_simps)
  obtain r2 s2 where w: "pot_withdraw (Some 1) ex_now 10 (Some 20) ex_db = (Inr r2, s2)"
    by (simp add: ex_simps)
  from pot_transfer_conservation [of "Some 1" ex_now 10 "Some 30" ex_db r1 s1] d b t pb
  have "balance_of s1 1 = Some 470 \<and> total_of s1 1 10 = Some 150 \<and>
       pot_plus_balance s1 1 10 = Some 620 \<and> other_profiles 1 s1 = other_profiles 1 ex_db"
    by auto
  moreover
  from pot_transfer_conservation [of "Some 1" ex_now 10 "Some 20" ex_db r2 s2] w b t pb
  have "balance_of s2 1 = Some 520 \<and> total_of s2 1 10 = Some 100 \<and>
       pot_plus_balance s2 1 10 = Some 620 \<and> other_pots 10 s2 = other_pots 10 ex_db"
    by auto
  ultimately show ?thesis using d w by blast
qed

text \<open>
  Claim C3. Whenever \<open>pot_deposit\<close>, \<open>pot_withdraw\<close> or \<open>delete_pot\<close> returns an
  error object, whichever it is, the store after the call is the store before it.
\<close>

theorem failures_leave_store_unchanged:
  "(fst (pot_deposit auth now pid amount s) = Inl e \<longrightarrow> snd (pot_deposit auth now pid amount s) = s) \<and>
   (fst (pot_withdraw auth now pid amount s) = Inl e \<longrightarrow> snd (pot_withdraw auth now pid amount s) = s) \<and>
   (fst (delete_pot auth now pid s) = Inl e \<longrightarrow> snd (delete_pot auth now pid s) = s)"
  by (auto simp: pot_deposit_def pot_withdraw_def delete_pot_def Let_def split: option.splits if_splits)

lemma pots_total_remove:
  "distinct (map pot_id ps) \<Longrightarrow> p \<in> set ps \<Longrightarrow> pot_user_id p = u \<Longrightarrow>
   pots_total (filter (\<lambda>q. pot_id q \<noteq> pot_id p) ps) u + pot_total p = pots_total ps u"
proof (induction ps)
  case Nil
  then show ?case by simp
next
  case (Cons q qs)
  show ?case
  proof (cases "q = p")
    case True
    with Cons.prems have "\<forall>x\<in>set qs. pot_id x \<noteq> pot_id p" by (auto simp: image_iff)
    then have "filter (\<lambda>q. pot_id q \<noteq> pot_id p) qs = qs" by (simp add: filter_id_conv)
    with True Cons.prems show ?thesis by (simp add: pots_total_def)
  next
    case False
    with Cons.prems have pin: "p \<in> set qs" by simp
    with Cons.prems have "pot_id q \<noteq> pot_id p" by (auto simp: image_iff)
    moreover have "pots_total (filter (\<lambda>q. pot_id q \<noteq> pot_id p) qs) u + pot_total p = pots_total qs u"
      using Cons.IH Cons.prems pin by simp
    ultimately show ?thesis by (auto simp: pots_total_def)
  qed
qed


text \<open>Claim C3 at three failing calls on the example store.\<close>

theorem failures_leave_store_unchanged_witness:
  "fst (pot_deposit (Some 1) ex_now 10 (Some 600) ex_db) = Inl InsufficientBalance \<and>
   snd (pot_deposit (Some 1) ex_now 10 (Some 600) ex_db) = ex_db \<and>
   fst (pot_withdraw (Some 1) ex_now 10 (Some 121) ex_db) = Inl InsufficientPotBalance \<and>
   snd (pot_withdraw (Some 1) ex_now 10 (Some 121) ex_db) = ex_db \<and>
   fst (delete_pot (Some 2) ex_now 10 ex_db) = Inl NotFound \<and>
   snd (delete_pot (Some 2) ex_now 10 ex_db) = ex_db"
proof -
  have d: "fst (pot_deposit (Some 1) ex_now 10 (Some 600) ex_db) = Inl InsufficientBalance"
    and w: "fst (pot_withdraw (Some 1) ex_now 10 (Some 121) ex_db) = Inl InsufficientPotBalance"
    and x: "fst (delete_pot (Some 2) ex_now 10 ex_db) = Inl NotFound"
    by (simp_all add: ex_simps)
  from failures_leave_store_unchanged [of "Some 1" ex_now 10 "Some 600" ex_db InsufficientBalance] d
  have "snd (pot_deposit (Some 1) ex_now 10 (Some 600) ex_db) = ex_db" by blast
  moreover
  from failures_leave_store_unchanged [of "Some 1" ex_now 10 "Some 121" ex_db InsufficientPotBalance] w
  have "snd (pot_withdraw (Some 1) ex_now 10 (Some 121) ex_db) = ex_db" by blast
  moreover
  from failures_leave_store_unchanged [of "Some 2" ex_now 10 "Some 1" ex_db NotFound] x
  have "snd (delete_pot (Some 2) ex_now 10 ex_db) = ex_db" by blast
  ultimately show ?thesis using d w x by simp
qed

text \<open>
  Claim C2, amended. For a signed-in caller and an amount that is not NULL: both functions
  fail with the invalid-amount error exactly when the amount is at most zero; for a
  positive amount they fail with not-found exactly when the caller owns no pot of that id;
  with the pot found, a deposit fails with \<open>Profile not found\<close> exactly when the caller
  has no profile row, and with a profile row it fails with insufficient balance exactly
  when the balance is below the amount and succeeds otherwise; a withdrawal fails with
  insufficient pot balance exactly when the pot's total is below the amount and succeeds
  otherwise.
\<close>

theorem pot_transfer_outcomes:
  "(fst (pot_deposit (Some u) now pid (Some a) s) = Inl InvalidAmount \<longleftrightarrow> a \<le> 0) \<and>
   (fst (pot_withdraw (Some u) now pid (Some a) s) = Inl InvalidAmount \<longleftrightarrow> a \<le> 0) \<and>
   (0 < a \<longrightarrow>
      (fst (pot_deposit (Some u) now pid (Some a) s) = Inl NotFound \<longleftrightarrow>
         select_pot pid u (pots s) = None) \<and>
      (fst (pot_withdraw (Some u) now pid (Some a) s) = Inl NotFound \<longleftrightarrow>
         select_pot pid u (pots s) = None)) \<and>
   (0 < a \<and> select_pot pid u (pots s) = Some p \<longrightarrow>
      (fst (pot_deposit (Some u) now pid (Some a) s) = Inl ProfileNotFound \<longleftrightarrow>
         select_profile u (profiles s) = None) \<and>
      (fst (pot_withdraw (Some u) now pid (Some a) s) = Inl InsufficientPotBalance \<longleftrightarrow>
         pot_total p < a) \<and>
      (\<not> pot_total p < a \<longrightarrow> (\<exists>r. fst (pot_withdraw (Some u) now pid (Some a) s) = Inr r))) \<and>
   (0 < a \<and> select_pot pid u (pots s) = Some p \<and> select_profile u (profiles s) = Some pr \<longrightarrow>
      (fst (pot_deposit (Some u) now pid (Some a) s) = Inl InsufficientBalance \<longleftrightarrow>
         balance pr < a) \<and>
      (\<not> balance pr < a \<longrightarrow> (\<exists>r. fst (pot_deposit (Some u) now pid (Some a) s) = Inr r)))"
  by (auto simp: pot_deposit_def pot_withdraw_def Let_def split: option.splits if_splits)

text \<open>
  Claim C2 as stated fails: user 3 is signed in, owns pot 12 and deposits a positive
  amount, there is no balance that could be below the amount, and the deposit neither
  succeeds nor fails with one of the four errors of the claim.
\<close>

theorem pot_deposit_without_profile_counterexample:
  "\<not> (10::rat) \<le> 0 \<and> select_pot 12 3 (pots ex_db) \<noteq> None \<and> balance_of ex_db 3 = None \<and>
   fst (pot_deposit (Some 3) ex_now 12 (Some 10) ex_db) = Inl ProfileNotFound"
  by (simp add: ex_simps)

text \<open>Claim C2, amended, at six calls on the example store.\<close>

theorem pot_transfer_outcomes_witness:
  "fst (pot_deposit (Some 1) ex_now 10 (Some 0) ex_db) = Inl InvalidAmount \<and>
   fst (pot_deposit (Some 1) ex_now 11 (Some 5) ex_db) = Inl NotFound \<and>
   fst (pot_deposit (Some 1) ex_now 10 (Some 600) ex_db) = Inl InsufficientBalance \<and>
   fst (pot_withdraw (Some 1) ex_now 10 (Some 600) ex_db) = Inl InsufficientPotBalance \<and>
   (\<exists>r. fst (pot_deposit (Some 1) ex_now 10 (Some 500) ex_db) = Inr r) \<and>
   (\<exists>r. fst (pot_withdraw (Some 1) ex_now 10 (Some 120) ex_db) = Inr r)"
proof -
  obtain p where p: "select_pot 10 1 (pots ex_db) = Some p" "pot_total p = 120"
    by (simp add: ex_simps)
  obtain pr where pr: "select_profile 1 (profiles ex_db) = Some pr" "balance pr = 500"
    by (simp add: ex_simps)
  have n: "select_pot 11 1 (pots ex_db) = None"
    by (simp add: ex_simps)
  have "fst (pot_deposit (Some 1) ex_now 10 (Some 0) ex_db) = Inl InvalidAmount"
    using pot_transfer_outcomes [of 1 ex_now 10 0 ex_db p pr] by simp
  moreover have "fst (pot_deposit (Some 1) ex_now 11 (Some 5) ex_db) = Inl NotFound"
    using pot_transfer_outcomes [of 1 ex_now 11 5 ex_db p pr] n by simp
  moreover have "fst (pot_deposit (Some 1) ex_now 10 (Some 600) ex_db) = Inl InsufficientBalance"
    "fst (pot_withdraw (Some 1) ex_now 10 (Some 600) ex_db) = Inl InsufficientPotBalance"
    using pot_transfer_outcomes [of 1 ex_now 10 600 ex_db p pr] p pr by simp_all
  moreover have "\<exists>r. fst (pot_deposit (Some 1) ex_now 10 (Some 500) ex_db) = Inr r"
    using pot_transfer_outcomes [of 1 ex_now 10 500 ex_db p pr] p pr by simp
  moreover have "\<exists>r. fst (pot_withdraw (Some 1) ex_now 10 (Some 120) ex_db) = Inr r"
    using pot_transfer_outcomes [of 1 ex_now 10 120 ex_db p pr] p pr by simp
  ultimately show ?thesis by simp
qed

lemma pots_total_remove_id:
  assumes "distinct (map pot_id ps)" "select_pot pid u ps = Some p"
  shows "pots_total (filter (\<lambda>q. pot_id q \<noteq> pid) ps) u + pot_total p = pots_total ps u"
proof -
  from assms(2) have "p \<in> set ps" "pot_id p = pid" "pot_user_id p = u"
    using select_pot_SomeD by blast+
  with pots_total_remove [OF assms(1), of p u] show ?thesis by simp
qed

lemma pots_total_remove_other:
  assumes "select_pot pid u ps = Some p" "distinct (map pot_id ps)" "u' \<noteq> u"
  shows "pots_total (filter (\<lambda>q. pot_id q \<noteq> pid) ps) u' = pots_total ps u'"
proof -
  from assms(1) have pin: "p \<in> set ps" "pot_id p = pid" "pot_user_id p = u"
    using select_pot_SomeD by blast+
  have "\<forall>q\<in>set ps. pot_user_id q = u' \<longrightarrow> pot_id q \<noteq> pid"
  proof (intro ballI impI)
    fix q assume q: "q \<in> set ps" "pot_user_id q = u'"
    show "pot_id q \<noteq> pid"
    proof
      assume "pot_id q = pid"
      with pin q(1) assms(2) have "q = p"
        by (metis distinct_map inj_onD)
      with q(2) pin(3) assms(3) show False by simp
    qed
  qed
  then have "filter (\<lambda>q. pot_user_id q = u') (filter (\<lambda>q. pot_id q \<noteq> pid) ps) =
             filter (\<lambda>q. pot_user_id q = u') ps"
    by (auto intro: filter_cong)
  then show ?thesis by (simp add: pots_total_def)
qed

lemma select_pot_filter_other:
  "select_pot pid u (filter (\<lambda>q. pot_id q \<noteq> pid) ps) = None"
  by (induction ps) (auto simp: select_pot_def)

text \<open>
  What holds of \<open>delete_pot\<close> on a pot the caller owns when the caller has a profile row:
  it returns success; a positive total is added to the balance, a zero total leaves the
  profiles untouched; the pot row is gone and every other row stays; and with pot ids
  unique the funds of the account, balance plus pots, are the same before and after.
\<close>

lemma delete_pot_returns_funds:
  assumes "select_pot pid u (pots s) = Some p" and "balance_of s u = Some b"
  shows "\<exists>s'. delete_pot (Some u) now pid s = (Inr (), s') \<and>
           (0 < pot_total p \<longrightarrow> balance_of s' u = Some (b + pot_total p)) \<and>
           (pot_total p = 0 \<longrightarrow> balance_of s' u = Some b \<and> profiles s' = profiles s) \<and>
           pid \<notin> set (map pot_id (pots s')) \<and> total_of s' u pid = None \<and>
           other_pots pid s' = other_pots pid s \<and>
           other_profiles u s' = other_profiles u s \<and>
           transactions s' = transactions s \<and>
           (pots_pk s \<and> (0 < pot_total p \<or> pot_total p = 0) \<longrightarrow> funds s' u = funds s u)"
proof -
  define s1 where "s1 = (if pot_total p > 0
                       then s\<lparr>profiles := add_balance now u (pot_total p) (profiles s)\<rparr> else s)"
  define s' where "s' = s1\<lparr>pots := filter (\<lambda>q. pot_id q \<noteq> pid) (pots s1)\<rparr>"
  have res: "delete_pot (Some u) now pid s = (Inr (), s')"
    using assms(1) by (simp add: delete_pot_def s'_def s1_def Let_def)
  have pots': "pots s' = filter (\<lambda>q. pot_id q \<noteq> pid) (pots s)"
    by (simp add: s'_def s1_def)
  have prof': "profiles s' = (if pot_total p > 0 then add_balance now u (pot_total p) (profiles s)
                              else profiles s)"
    by (simp add: s'_def s1_def)
  have b1: "0 < pot_total p \<longrightarrow> balance_of s' u = Some (b + pot_total p)"
    using assms(2) by (auto simp: balance_of_def prof' select_profile_add_balance)
  have b0: "pot_total p = 0 \<longrightarrow> balance_of s' u = Some b \<and> profiles s' = profiles s"
    using assms(2) by (simp add: balance_of_def prof')
  have gone: "pid \<notin> set (map pot_id (pots s'))" "total_of s' u pid = None"
    by (auto simp: pots' total_of_def select_pot_filter_other)
  have others: "other_pots pid s' = other_pots pid s" "other_profiles u s' = other_profiles u s"
    "transactions s' = transactions s"
    by (simp_all add: other_pots_def other_profiles_def pots' prof' filter_add_balance_other s'_def s1_def)
  have cons: "pots_pk s \<and> (0 < pot_total p \<or> pot_total p = 0) \<longrightarrow> funds s' u = funds s u"
  proof
    assume h: "pots_pk s \<and> (0 < pot_total p \<or> pot_total p = 0)"
    then have "pots_total (pots s') u + pot_total p = pots_total (pots s) u"
      using pots_total_remove_id [of "pots s" pid u p] assms(1) by (simp add: pots' pots_pk_def)
    moreover from h b1 b0 have "balance_of s' u = Some (b + pot_total p)" by auto
    ultimately show "funds s' u = funds s u"
      using assms(2) by (simp add: funds_def)
  qed
  from res b1 b0 gone others cons show ?thesis by blast
qed

text \<open>The pot holding 120 and an empty pot of the example store.\<close>

lemma delete_pot_returns_funds_example:
  "(\<exists>s'. delete_pot (Some 1) ex_now 10 ex_db = (Inr (), s') \<and> balance_of s' 1 = Some 620 \<and>
       10 \<notin> set (map pot_id (pots s')) \<and> funds s' 1 = Some 620) \<and>
   (\<exists>s'. delete_pot (Some 2) ex_now 11 ex_db = (Inr (), s') \<and> balance_of s' 2 = Some 70 \<and>
       11 \<notin> set (map pot_id (pots s')) \<and> funds s' 2 = Some 70)"
proof -
  obtain p where p: "select_pot 10 1 (pots ex_db) = Some p" "pot_total p = 120"
    by (simp add: ex_simps)
  obtain q where q: "select_pot 11 2 (pots ex_db) = Some q" "pot_total q = 0"
    by (simp add: ex_simps)
  have b: "balance_of ex_db 1 = Some 500" "balance_of ex_db 2 = Some 70"
    by (simp_all add: ex_simps)
  have f: "funds ex_db 1 = Some 620" "funds ex_db 2 = Some 70"
    by (simp_all add: funds_def pots_total_def ex_simps)
  have pk: "pots_pk ex_db"
    by (simp add: pots_pk_def ex_db_def)
  from delete_pot_returns_funds [OF p(1) b(1), of ex_now] p(2) f(1) pk
  have "\<exists>s'. delete_pot (Some 1) ex_now 10 ex_db = (Inr (), s') \<and> balance_of s' 1 = Some 620 \<and>
       10 \<notin> set (map pot_id (pots s')) \<and> funds s' 1 = Some 620"
    by auto
  moreover
  from delete_pot_returns_funds [OF q(1) b(2), of ex_now] q(2) f(2) pk
  have "\<exists>s'. delete_pot (Some 2) ex_now 11 ex_db = (Inr (), s') \<and> balance_of s' 2 = Some 70 \<and>
       11 \<notin> set (map pot_id (pots s')) \<and> funds s' 2 = Some 70"
    by auto
  ultimately show ?thesis by simp
qed



section \<open>Balance accrual: the trigger against recomputation\<close>

lemma period_sum_contrib: "period_sum now ts u = sum_list (map (contrib now u) ts)"
  by (induction ts) (auto simp: period_sum_def contrib_def)

lemma period_sum_Nil: "period_sum now [] u = 0"
  by (simp add: period_sum_def)

lemma period_sum_Cons: "period_sum now (t # ts) u = contrib now u t + period_sum now ts u"
  by (simp add: period_sum_contrib)

lemma period_sum_append: "period_sum now (ts @ ts') u = period_sum now ts u + period_sum now ts' u"
  by (simp add: period_sum_contrib)

lemma bal_all_cong: "(\<And>i b. Q i b = Q' i b) \<Longrightarrow> bal_all Q ps = bal_all Q' ps"
  by (simp add: bal_all_def)

lemma bal_all_add_balance:
  "bal_all Q (add_balance now u d ps) = bal_all (\<lambda>i b. Q i (b + (if u = i then d else 0))) ps"
  by (induction ps) (auto simp: bal_all_def add_balance_def)

lemma bal_all_trigger:
  "bal_all Q (update_balance_on_transaction now ev ps) = bal_all (\<lambda>i b. Q i (b + tg_delta now ev i)) ps"
proof (cases ev)
  case (TG_INSERT new)
  then show ?thesis
    by (auto simp: bal_all_add_balance contrib_def intro!: bal_all_cong)
next
  case (TG_UPDATE old new)
  then show ?thesis
    by (auto simp: bal_all_add_balance contrib_def Let_def algebra_simps intro!: bal_all_cong)
next
  case (TG_DELETE old)
  then show ?thesis
    by (auto simp: bal_all_add_balance contrib_def intro!: bal_all_cong)
qed

declare update_balance_on_transaction.simps [simp del]

lemma update_rows_effect:
  "update_rows now hit f ts ps = (ts', ps') \<Longrightarrow>
   ts' = map (\<lambda>t. if hit t then f t else t) ts \<and>
   bal_all Q ps' = bal_all (\<lambda>i b. Q i (b + (period_sum now ts' i - period_sum now ts i))) ps"
proof (induction ts arbitrary: ps ts' ps' Q)
  case Nil
  then show ?case by (simp add: period_sum_Nil)
next
  case (Cons t ts)
  show ?case
  proof (cases "hit t")
    case True
    obtain ts1 ps1 where r: "update_rows now hit f ts (update_balance_on_transaction now (TG_UPDATE t (f t)) ps) = (ts1, ps1)"
      by (cases "update_rows now hit f ts (update_balance_on_transaction now (TG_UPDATE t (f t)) ps)")
    with True Cons.prems have e: "ts' = f t # ts1" "ps' = ps1" by simp_all
    from Cons.IH [OF r, of Q] have ih: "ts1 = map (\<lambda>t. if hit t then f t else t) ts"
      "bal_all Q ps1 = bal_all (\<lambda>i b. Q i (b + (period_sum now ts1 i - period_sum now ts i)))
          (update_balance_on_transaction now (TG_UPDATE t (f t)) ps)"
      by simp_all
    have "bal_all Q ps' = bal_all (\<lambda>i b. Q i (b + tg_delta now (TG_UPDATE t (f t)) i + (period_sum now ts1 i - period_sum now ts i))) ps"
      using ih(2) e by (simp add: bal_all_trigger)
    also have "\<dots> = bal_all (\<lambda>i b. Q i (b + (period_sum now ts' i - period_sum now (t # ts) i))) ps"
      using e by (simp add: period_sum_Cons algebra_simps)
    finally show ?thesis using e ih(1) True by simp
  next
    case False
    obtain ts1 ps1 where r: "update_rows now hit f ts ps = (ts1, ps1)"
      by (cases "update_rows now hit f ts ps")
    with False Cons.prems have e: "ts' = t # ts1" "ps' = ps1" by simp_all
    from Cons.IH [OF r, of Q] have ih: "ts1 = map (\<lambda>t. if hit t then f t else t) ts"
      "bal_all Q ps1 = bal_all (\<lambda>i b. Q i (b + (period_sum now ts1 i - period_sum now ts i))) ps"
      by simp_all
    show ?thesis using e ih False by (simp add: period_sum_Cons)
  qed
qed

lemma delete_rows_effect:
  "delete_rows now hit ts ps = (ts', ps') \<Longrightarrow>
   ts' = filter (\<lambda>t. \<not> hit t) ts \<and>
   bal_all Q ps' = bal_all (\<lambda>i b. Q i (b + (period_sum now ts' i - period_sum now ts i))) ps"
proof (induction ts arbitrary: ps ts' ps' Q)
  case Nil
  then show ?case by (simp add: period_sum_Nil)
next
  case (Cons t ts)
  show ?case
  proof (cases "hit t")
    case True
    with Cons.prems have r: "delete_rows now hit ts (update_balance_on_transaction now (TG_DELETE t) ps) = (ts', ps')"
      by simp
    from Cons.IH [OF r, of Q] have ih: "ts' = filter (\<lambda>t. \<not> hit t) ts"
      "bal_all Q ps' = bal_all (\<lambda>i b. Q i (b + (period_sum now ts' i - period_sum now ts i)))
          (update_balance_on_transaction now (TG_DELETE t) ps)"
      by simp_all
    have "bal_all Q ps' = bal_all (\<lambda>i b. Q i (b + tg_delta now (TG_DELETE t) i + (period_sum now ts' i - period_sum now ts i))) ps"
      using ih(2) by (simp add: bal_all_trigger)
    also have "\<dots> = bal_all (\<lambda>i b. Q i (b + (period_sum now ts' i - period_sum now (t # ts) i))) ps"
      by (simp add: period_sum_Cons algebra_simps)
    finally show ?thesis using ih(1) True by simp
  next
    case False
    obtain ts1 ps1 where r: "delete_rows now hit ts ps = (ts1, ps1)"
      by (cases "delete_rows now hit ts ps")
    with False Cons.prems have e: "ts' = t # ts1" "ps' = ps1" by simp_all
    from Cons.IH [OF r, of Q] have ih: "ts1 = filter (\<lambda>t. \<not> hit t) ts"
      "bal_all Q ps1 = bal_all (\<lambda>i b. Q i (b + (period_sum now ts1 i - period_sum now ts i))) ps"
      by simp_all
    show ?thesis using e ih False by (simp add: period_sum_Cons)
  qed
qed

text \<open>
  Every transaction write shifts each balance by the change of that account's period sum,
  and leaves the pots alone.
\<close>

lemma apply_tx_op_effect:
  "pots (apply_tx_op now op s) = pots s \<and>
   bal_all Q (profiles (apply_tx_op now op s)) =
     bal_all (\<lambda>i b. Q i (b + (period_sum now (transactions (apply_tx_op now op s)) i -
                               period_sum now (transactions s) i))) (profiles s)"
proof (cases op)
  case (OpCreate session new_id data)
  then show ?thesis
    by (auto simp: createTransaction_def Let_def bal_all_trigger period_sum_append period_sum_Cons
        period_sum_Nil split: option.splits)
next
  case (OpUpdate session ident data)
  show ?thesis
  proof (cases "snd (updateTransaction session now ident data s) = s")
    case True
    with OpUpdate show ?thesis by simp
  next
    case False
    define hit where "hit = (\<lambda>t. tx_id t = ident \<and> own_row session t)"
    obtain ts' ps' where r: "update_rows now hit (apply_patch data) (transactions s) (profiles s) = (ts', ps')"
      by (cases "update_rows now hit (apply_patch data) (transactions s) (profiles s)")
    from False have "snd (updateTransaction session now ident data s) = s\<lparr>transactions := ts', profiles := ps'\<rparr>"
      using r by (auto simp: updateTransaction_def Let_def hit_def split: list.splits if_splits)
    with OpUpdate update_rows_effect [OF r, of Q] show ?thesis by simp
  qed
next
  case (OpDelete session ident)
  define hit where "hit = (\<lambda>t. tx_id t = ident \<and> own_row session t)"
  obtain ts' ps' where r: "delete_rows now hit (transactions s) (profiles s) = (ts', ps')"
    by (cases "delete_rows now hit (transactions s) (profiles s)")
  have "snd (deleteTransaction session now ident s) = s\<lparr>transactions := ts', profiles := ps'\<rparr>"
    using r by (simp add: deleteTransaction_def Let_def hit_def)
  with OpDelete delete_rows_effect [OF r, of Q] show ?thesis by simp
qed

lemma apply_tx_op_reconciled:
  "balance_reconciled now s \<Longrightarrow> balance_reconciled now (apply_tx_op now op s)"
proof -
  assume a: "balance_reconciled now s"
  have "balance_reconciled now (apply_tx_op now op s) =
        bal_all (\<lambda>i b. b = period_sum now (transactions (apply_tx_op now op s)) i) (profiles (apply_tx_op now op s))"
    by (simp add: balance_reconciled_def bal_all_def)
  also have "\<dots> = bal_all (\<lambda>i b. b + (period_sum now (transactions (apply_tx_op now op s)) i -
                               period_sum now (transactions s) i) = period_sum now (transactions (apply_tx_op now op s)) i) (profiles s)"
    using apply_tx_op_effect [of now op s "\<lambda>i b. b = period_sum now (transactions (apply_tx_op now op s)) i"]
    by simp
  also have "\<dots> = balance_reconciled now s"
    by (simp add: balance_reconciled_def bal_all_def algebra_simps)
  finally show ?thesis using a by simp
qed

lemma add_total_absent:
  "\<forall>q\<in>set ps. pot_id q \<noteq> pid \<Longrightarrow> add_total now pid d ps = ps"
  by (induction ps) (auto simp: add_total_def)

lemma pots_total_add_total_mem:
  "distinct (map pot_id ps) \<Longrightarrow> p \<in> set ps \<Longrightarrow>
   pots_total (add_total now (pot_id p) d ps) i = pots_total ps i + (if pot_user_id p = i then d else 0)"
proof (induction ps)
  case Nil
  then show ?case by simp
next
  case (Cons q qs)
  show ?case
  proof (cases "q = p")
    case True
    with Cons.prems have "\<forall>x\<in>set qs. pot_id x \<noteq> pot_id p" by (auto simp: image_iff)
    then have "add_total now (pot_id p) d qs = qs" by (rule add_total_absent)
    then have "add_total now (pot_id p) d (q # qs) =
               p\<lparr>pot_total := pot_total p + d, pot_updated_at := now\<rparr> # qs"
      using True by (simp add: add_total_def)
    then show ?thesis using True by (simp add: pots_total_def)
  next
    case False
    with Cons.prems have pin: "p \<in> set qs" by simp
    with Cons.prems have ne: "pot_id q \<noteq> pot_id p" by (auto simp: image_iff)
    have ih: "pots_total (add_total now (pot_id p) d qs) i =
              pots_total qs i + (if pot_user_id p = i then d else 0)"
      using Cons.IH Cons.prems pin by simp
    have "add_total now (pot_id p) d (q # qs) = q # add_total now (pot_id p) d qs"
      using ne by (simp add: add_total_def)
    then show ?thesis using ih by (simp add: pots_total_def)
  qed
qed

lemma pots_total_add_total:
  assumes "distinct (map pot_id ps)" "select_pot pid u ps = Some p"
  shows "pots_total (add_total now pid d ps) i = pots_total ps i + (if u = i then d else 0)"
proof -
  from assms(2) have "p \<in> set ps" "pot_id p = pid" "pot_user_id p = u"
    using select_pot_SomeD by blast+
  with pots_total_add_total_mem [OF assms(1), of p now d i] show ?thesis by simp
qed

lemma pots_check_add_total:
  assumes "distinct (map pot_id ps)" "select_pot pid u ps = Some p"
    "list_all (\<lambda>q. 0 \<le> pot_total q) ps" "0 \<le> pot_total p + d"
  shows "list_all (\<lambda>q. 0 \<le> pot_total q) (add_total now pid d ps)"
proof -
  from assms(2) have pin: "p \<in> set ps" "pot_id p = pid"
    using select_pot_SomeD by blast+
  have "\<forall>q\<in>set ps. pot_id q = pid \<longrightarrow> q = p"
    using pin assms(1) by (metis distinct_map inj_onD)
  with assms(3,4) show ?thesis
    by (auto simp: add_total_def list_all_iff)
qed

lemma pots_total_filter:
  assumes "distinct (map pot_id ps)" "select_pot pid u ps = Some p"
  shows "pots_total (filter (\<lambda>q. pot_id q \<noteq> pid) ps) i =
         pots_total ps i - (if u = i then pot_total p else 0)"
proof (cases "u = i")
  case True
  with pots_total_remove_id [OF assms] show ?thesis by simp
next
  case False
  then have "i \<noteq> u" by simp
  with pots_total_remove_other [OF assms(2,1)] False show ?thesis by simp
qed

lemma funds_reconciled_bal_all:
  "funds_reconciled now s =
     bal_all (\<lambda>i b. b + pots_total (pots s) i = period_sum now (transactions s) i) (profiles s)"
  by (simp add: funds_reconciled_def bal_all_def)

lemma deposit_failure:
  "fst (pot_deposit auth now pid amount s) = Inl e \<Longrightarrow> snd (pot_deposit auth now pid amount s) = s"
  by (auto simp: pot_deposit_def Let_def split: option.splits if_splits)

lemma withdraw_failure:
  "fst (pot_withdraw auth now pid amount s) = Inl e \<Longrightarrow> snd (pot_withdraw auth now pid amount s) = s"
  by (auto simp: pot_withdraw_def Let_def split: option.splits if_splits)

lemma delete_pot_failure:
  "fst (delete_pot auth now pid s) = Inl e \<Longrightarrow> snd (delete_pot auth now pid s) = s"
  by (auto simp: delete_pot_def Let_def split: option.splits if_splits)

lemma sys_inv_tx:
  assumes "sys_inv now s"
  shows "sys_inv now (apply_tx_op now op s)"
proof -
  let ?s' = "apply_tx_op now op s"
  have p: "pots ?s' = pots s"
    using apply_tx_op_effect [of now op s "\<lambda>i b. True"] by simp
  have "funds_reconciled now ?s' =
     bal_all (\<lambda>i b. b + pots_total (pots s) i = period_sum now (transactions ?s') i) (profiles ?s')"
    by (simp add: funds_reconciled_bal_all p)
  also have "\<dots> = bal_all (\<lambda>i b. b + (period_sum now (transactions ?s') i - period_sum now (transactions s) i)
                    + pots_total (pots s) i = period_sum now (transactions ?s') i) (profiles s)"
    using apply_tx_op_effect [of now op s "\<lambda>i b. b + pots_total (pots s) i = period_sum now (transactions ?s') i"]
    by simp
  also have "\<dots> = funds_reconciled now s"
    unfolding funds_reconciled_bal_all by (rule bal_all_cong) (auto simp: algebra_simps)
  finally show ?thesis using assms p by (simp add: sys_inv_def pots_pk_def pots_check_def)
qed

lemma sys_inv_deposit:
  assumes "sys_inv now s"
  shows "sys_inv now (snd (pot_deposit auth now pid amount s))"
proof (cases "fst (pot_deposit auth now pid amount s)")
  case (Inl e)
  then show ?thesis using assms deposit_failure by simp
next
  case (Inr r)
  then have "pot_deposit auth now pid amount s = (Inr r, snd (pot_deposit auth now pid amount s))"
    by (metis prod.collapse)
  then obtain u a p where h: "0 < a" "select_pot pid u (pots s) = Some p"
    "snd (pot_deposit auth now pid amount s) =
       s\<lparr>profiles := add_balance now u (- a) (profiles s), pots := add_total now pid a (pots s)\<rparr>"
    by (rule deposit_successD)
  let ?s' = "s\<lparr>profiles := add_balance now u (- a) (profiles s), pots := add_total now pid a (pots s)\<rparr>"
  from assms have pk: "distinct (map pot_id (pots s))" and ck: "list_all (\<lambda>q. 0 \<le> pot_total q) (pots s)"
    and fr: "funds_reconciled now s"
    by (simp_all add: sys_inv_def pots_pk_def pots_check_def)
  have "0 \<le> pot_total p" using ck h(2) select_pot_SomeD by (auto simp: list_all_iff)
  then have ck': "list_all (\<lambda>q. 0 \<le> pot_total q) (pots ?s')"
    using pots_check_add_total [OF pk h(2) ck, of a now] h(1) by simp
  have pk': "distinct (map pot_id (pots ?s'))"
    using pk by (simp add: map_id_add_total)
  have "funds_reconciled now ?s' =
        bal_all (\<lambda>i b. b + (if u = i then - a else 0) + (pots_total (pots s) i + (if u = i then a else 0)) =
                        period_sum now (transactions s) i) (profiles s)"
    by (simp add: funds_reconciled_bal_all bal_all_add_balance pots_total_add_total [OF pk h(2)])
  also have "\<dots> = funds_reconciled now s"
    unfolding funds_reconciled_bal_all by (rule bal_all_cong) auto
  finally show ?thesis using fr pk' ck' h(3) by (simp add: sys_inv_def pots_pk_def pots_check_def)
qed

lemma sys_inv_withdraw:
  assumes "sys_inv now s"
  shows "sys_inv now (snd (pot_withdraw auth now pid amount s))"
proof (cases "fst (pot_withdraw auth now pid amount s)")
  case (Inl e)
  then show ?thesis using assms withdraw_failure by simp
next
  case (Inr r)
  then have "pot_withdraw auth now pid amount s = (Inr r, snd (pot_withdraw auth now pid amount s))"
    by (metis prod.collapse)
  then obtain u a p where h: "select_pot pid u (pots s) = Some p" "\<not> pot_total p < a"
    "snd (pot_withdraw auth now pid amount s) =
       s\<lparr>pots := add_total now pid (- a) (pots s), profiles := add_balance now u a (profiles s)\<rparr>"
    by (rule withdraw_successD)
  let ?s' = "s\<lparr>pots := add_total now pid (- a) (pots s), profiles := add_balance now u a (profiles s)\<rparr>"
  from assms have pk: "distinct (map pot_id (pots s))" and ck: "list_all (\<lambda>q. 0 \<le> pot_total q) (pots s)"
    and fr: "funds_reconciled now s"
    by (simp_all add: sys_inv_def pots_pk_def pots_check_def)
  have ck': "list_all (\<lambda>q. 0 \<le> pot_total q) (pots ?s')"
    using pots_check_add_total [OF pk h(1) ck, of "- a" now] h(2) by simp
  have pk': "distinct (map pot_id (pots ?s'))"
    using pk by (simp add: map_id_add_total)
  have "funds_reconciled now ?s' =
        bal_all (\<lambda>i b. b + (if u = i then a else 0) + (pots_total (pots s) i + (if u = i then - a else 0)) =
                        period_sum now (transactions s) i) (profiles s)"
    by (simp add: funds_reconciled_bal_all bal_all_add_balance pots_total_add_total [OF pk h(1)])
  also have "\<dots> = funds_reconciled now s"
    unfolding funds_reconciled_bal_all by (rule bal_all_cong) auto
  finally show ?thesis using fr pk' ck' h(3) by (simp add: sys_inv_def pots_pk_def pots_check_def)
qed

lemma sys_inv_delete:
  assumes "sys_inv now s"
  shows "sys_inv now (snd (delete_pot auth now pid s))"
proof (cases "fst (delete_pot auth now pid s)")
  case (Inl e)
  then show ?thesis using assms delete_pot_failure by simp
next
  case (Inr r)
  then obtain u p where h: "auth = Some u" "select_pot pid u (pots s) = Some p"
    by (auto simp: delete_pot_def Let_def split: option.splits)
  from assms have pk: "distinct (map pot_id (pots s))" and ck: "list_all (\<lambda>q. 0 \<le> pot_total q) (pots s)"
    and fr: "funds_reconciled now s"
    by (simp_all add: sys_inv_def pots_pk_def pots_check_def)
  have "0 \<le> pot_total p" using ck h(2) select_pot_SomeD by (auto simp: list_all_iff)
  then have z: "\<not> 0 < pot_total p \<Longrightarrow> pot_total p = 0" by simp
  let ?s' = "snd (delete_pot auth now pid s)"
  have pots': "pots ?s' = filter (\<lambda>q. pot_id q \<noteq> pid) (pots s)"
    and tx': "transactions ?s' = transactions s"
    using h by (simp_all add: delete_pot_def Let_def)
  have prof': "bal_all Q (profiles ?s') =
               bal_all (\<lambda>i b. Q i (b + (if u = i then pot_total p else 0))) (profiles s)" for Q
  proof (cases "0 < pot_total p")
    case True
    then show ?thesis using h by (simp add: delete_pot_def Let_def bal_all_add_balance)
  next
    case False
    with z have "(if u = i then pot_total p else 0) = 0" for i by simp
    then show ?thesis using h False by (simp add: delete_pot_def Let_def)
  qed
  have "funds_reconciled now ?s' =
        bal_all (\<lambda>i b. b + (if u = i then pot_total p else 0) +
                        (pots_total (pots s) i - (if u = i then pot_total p else 0)) =
                        period_sum now (transactions s) i) (profiles s)"
    by (simp add: funds_reconciled_bal_all prof' pots' tx' pots_total_filter [OF pk h(2)])
  also have "\<dots> = funds_reconciled now s"
    unfolding funds_reconciled_bal_all by (rule bal_all_cong) auto
  finally show ?thesis using fr pk ck
    by (simp add: sys_inv_def pots_pk_def pots_check_def pots' distinct_map_filter list_all_iff)
qed

lemma sys_inv_step: "sys_inv now s \<Longrightarrow> sys_inv now (step now op s)"
  by (cases op) (simp_all add: sys_inv_tx sys_inv_deposit sys_inv_withdraw sys_inv_delete)

text \<open>The window of the trigger depends on the calendar month of \<open>now\<close> only.\<close>

lemma window_same_month:
  "same_month now t \<Longrightarrow> in_current_month t d = in_current_month now d"
  by (simp add: same_month_def in_current_month_def month_start_def month_end_def)

lemma sys_inv_same_month:
  assumes "same_month now t"
  shows "sys_inv t s = sys_inv now s"
proof -
  have "period_sum t ts u = period_sum now ts u" for ts u
    by (simp add: period_sum_def window_same_month [OF assms])
  then show ?thesis by (simp add: sys_inv_def funds_reconciled_def)
qed

lemma sys_inv_run:
  "sys_inv now s \<Longrightarrow> within_month now writes \<Longrightarrow> sys_inv now (run writes s)"
proof (induction writes arbitrary: s)
  case Nil
  then show ?case by (simp add: run_def)
next
  case (Cons w ws)
  from Cons.prems(2) have m: "same_month now (fst w)" and r: "within_month now ws"
    by (simp_all add: within_month_def)
  from Cons.prems(1) have "sys_inv (fst w) s" by (simp add: sys_inv_same_month [OF m])
  then have "sys_inv (fst w) (step (fst w) (snd w) s)" by (rule sys_inv_step)
  then have "sys_inv now (step (fst w) (snd w) s)" by (simp add: sys_inv_same_month [OF m])
  from Cons.IH [OF this r] show ?case by (simp add: run_def)
qed

lemmas tx_simps = replay_def run_def createTransaction_def updateTransaction_def deleteTransaction_def
  update_balance_on_transaction.simps in_current_month_def month_start_def month_end_def
  days_in_month_def leap_year_def ts_le_def ts_less_def pg_le_def pg_less_def apply_patch_def own_row_def categories_def
  period_sum_def ex_fresh_def ex_tx_ops_def ex_deposit_writes_def ex_april_writes_def
  ex_march_writes_def ex_april_cinema_def ex_later_def ex_april_def
  ex_salary_def ex_rent_def ex_cinema_def
  no_patch_def ex_now_def

lemma reconciled_balance_of:
  "balance_reconciled now s \<Longrightarrow> balance_of s u = Some b \<Longrightarrow> b = period_sum now (transactions s) u"
  by (auto simp: balance_reconciled_def balance_of_def select_profile_def list_all_iff find_Some_iff)

lemma funds_reconciled_balance_of:
  "funds_reconciled now s \<Longrightarrow> balance_of s u = Some b \<Longrightarrow>
   b + pots_total (pots s) u = period_sum now (transactions s) u"
  by (auto simp: funds_reconciled_def balance_of_def select_profile_def list_all_iff find_Some_iff)

lemma replay_balance_reconciled:
  assumes "balance_reconciled now s"
  shows "balance_reconciled now (replay now ops s) \<and>
         (\<forall>u b. balance_of (replay now ops s) u = Some b \<longrightarrow>
                b = period_sum now (transactions (replay now ops s)) u)"
proof -
  have "balance_reconciled now (replay now ops s)"
    using assms unfolding replay_def
    by (induction ops arbitrary: s) (simp_all add: apply_tx_op_reconciled)
  then show ?thesis using reconciled_balance_of by blast
qed

lemma window_is_month:
  assumes "valid_date d" and "\<not> last_second d"
  shows "in_current_month now d = same_month now d"
proof (cases "yr d = yr now \<and> mon d = mon now")
  case True
  with assms show ?thesis
    by (auto simp: in_current_month_def pg_le_def pg_less_def month_start_def month_end_def
        same_month_def valid_date_def last_second_def)
next
  case False
  then show ?thesis
    by (auto simp: in_current_month_def pg_le_def pg_less_def month_start_def month_end_def
        same_month_def)
qed

lemma recomputed_is_period_sum:
  "dates_clear ts \<Longrightarrow> recomputed_balance now ts u = period_sum now ts u"
  by (induction ts) (auto simp: dates_clear_def recomputed_balance_def period_sum_def window_is_month)

lemma spec_funds_reconciled_iff:
  "dates_clear (transactions s) \<Longrightarrow> spec_funds_reconciled now s = funds_reconciled now s"
  by (simp add: spec_funds_reconciled_def funds_reconciled_def recomputed_is_period_sum)

lemma spec_balance_reconciled_iff:
  "dates_clear (transactions s) \<Longrightarrow> spec_balance_reconciled now s = balance_reconciled now s"
  by (simp add: spec_balance_reconciled_def balance_reconciled_def recomputed_is_period_sum)

text \<open>
  Away from the last second of a month the trigger is exact: with \<open>now\<close> fixed, if
  every balance equals the recomputation before a sequence of transaction writes and no
  date of the table is in a last second before or after, every balance equals the
  recomputation after it.
\<close>

lemma replay_recomputed_balance:
  assumes "spec_balance_reconciled now s" and "dates_clear (transactions s)"
    and "dates_clear (transactions (replay now ops s))"
  shows "spec_balance_reconciled now (replay now ops s)"
  using assms replay_balance_reconciled [of now s ops]
  by (simp add: spec_balance_reconciled_iff)

text \<open>
  The sample sequence on a new account: a salary, a bill dated last month, an edited
  amount, a bill moved into the month, a deleted transaction and a delete by another user.
\<close>

lemma replay_recomputed_balance_example:
  "balance_of (replay ex_now ex_tx_ops ex_fresh) 1 = Some 700 \<and>
   recomputed_balance ex_now (transactions (replay ex_now ex_tx_ops ex_fresh)) 1 = 700"
  by (simp add: tx_simps ex_simps recomputed_balance_def same_month_def)

text \<open>
  Claim C4 fails on the code. On a new account, at \<open>now\<close> = 15 March 2024, a refund of
  75 dated 31 March 23:59:59.500 is inserted: its date is valid and within the calendar
  month of \<open>now\<close>, the recomputation gives 75, and the trigger leaves the balance at 0,
  because its window ends at 23:59:59.000 of the last day.
\<close>

theorem last_second_not_accrued:
  "valid_date (in_date ex_late) \<and> same_month ex_now (in_date ex_late) \<and>
   spec_balance_reconciled ex_now ex_fresh \<and>
   balance_of (replay ex_now [OpCreate (Some 1) 103 ex_late] ex_fresh) 1 = Some 0 \<and>
   recomputed_balance ex_now (transactions (replay ex_now [OpCreate (Some 1) 103 ex_late] ex_fresh)) 1 = 75"
  by (simp add: tx_simps ex_simps ex_late_def valid_date_def same_month_def
      spec_balance_reconciled_def recomputed_balance_def)

text \<open>
  A date half a millisecond into the last second: valid, within the calendar month, and
  outside the trigger's window.
\<close>

lemma last_second_usec_example:
  "valid_date \<lparr>yr = 2024, mon = 3, dom = 31, tod = 86399000, usec = 500\<rparr> \<and>
   same_month ex_now \<lparr>yr = 2024, mon = 3, dom = 31, tod = 86399000, usec = 500\<rparr> \<and>
   last_second \<lparr>yr = 2024, mon = 3, dom = 31, tod = 86399000, usec = 500\<rparr> \<and>
   \<not> in_current_month ex_now \<lparr>yr = 2024, mon = 3, dom = 31, tod = 86399000, usec = 500\<rparr>"
  by (simp add: valid_date_def same_month_def last_second_def in_current_month_def pg_le_def
      pg_less_def month_start_def month_end_def days_in_month_def ex_now_def)

text \<open>
  Claim C5 as stated fails, in two ways. On a new account, a salary of 1000 dated this
  month and then a deposit of 300 into a pot leave the balance at 700 while the
  transactions of the month sum to 1000. And without any pot: after the salary of March, a
  cinema ticket of 50 is written on 2 April; the balance is 950, the transactions dated in
  April sum to -50, and no pot holds anything.
\<close>

theorem balance_not_period_sum_counterexample:
  "spec_balance_reconciled ex_now ex_fresh \<and>
   balance_of (run ex_deposit_writes ex_fresh) 1 = Some 700 \<and>
   recomputed_balance ex_now (transactions (run ex_deposit_writes ex_fresh)) 1 = 1000 \<and>
   balance_of (run ex_april_writes ex_fresh) 1 = Some 950 \<and>
   recomputed_balance ex_april (transactions (run ex_april_writes ex_fresh)) 1 = - 50 \<and>
   pots_total (pots (run ex_april_writes ex_fresh)) 1 = 0"
  by (simp add: tx_simps ex_simps spec_balance_reconciled_def recomputed_balance_def
      same_month_def pots_total_def)

text \<open>
  Claim C5, amended. While the calendar month does not change (every write happens in
  the month of \<open>now\<close>), with pot ids unique and pot totals not negative (the primary key
  and the check constraint of the schema): if balance plus the totals of the account's
  pots equals the sum of the transactions dated in the calendar month of \<open>now\<close> for every
  account, it still does after any sequence of transaction writes and pot deposits,
  withdrawals and deletions. Nothing is said of tables holding a transaction dated in the
  last second of a month.
\<close>

theorem run_funds_reconciled:
  assumes "pots_pk s" and "pots_check s" and "spec_funds_reconciled now s"
    and "within_month now writes"
    and "dates_clear (transactions s)" and "dates_clear (transactions (run writes s))"
  shows "spec_funds_reconciled now (run writes s) \<and>
         (\<forall>u b. balance_of (run writes s) u = Some b \<longrightarrow>
                b + pots_total (pots (run writes s)) u =
                recomputed_balance now (transactions (run writes s)) u)"
proof -
  from assms have "sys_inv now s" by (simp add: sys_inv_def spec_funds_reconciled_iff)
  then have "sys_inv now (run writes s)" using assms(4) by (rule sys_inv_run)
  then have f: "funds_reconciled now (run writes s)" by (simp add: sys_inv_def)
  then have "spec_funds_reconciled now (run writes s)"
    using assms(6) by (simp add: spec_funds_reconciled_iff)
  moreover have "\<forall>u b. balance_of (run writes s) u = Some b \<longrightarrow>
                b + pots_total (pots (run writes s)) u =
                recomputed_balance now (transactions (run writes s)) u"
    using f funds_reconciled_balance_of assms(6) by (simp add: recomputed_is_period_sum)
  ultimately show ?thesis by simp
qed

text \<open>
  Claim C5, amended, on a new account: on 15 March a salary of 1000 and a deposit of 300,
  on 20 March a withdrawal of 100 and a cinema ticket of 50 leave balance 750 and 200 in
  the pot against transactions of 950.
\<close>

theorem run_funds_reconciled_witness:
  "pots_pk ex_fresh \<and> pots_check ex_fresh \<and> spec_funds_reconciled ex_now ex_fresh \<and>
   within_month ex_now ex_march_writes \<and>
   dates_clear (transactions ex_fresh) \<and>
   dates_clear (transactions (run ex_march_writes ex_fresh)) \<and>
   balance_of (run ex_march_writes ex_fresh) 1 = Some 750 \<and>
   pots_total (pots (run ex_march_writes ex_fresh)) 1 = 200 \<and>
   recomputed_balance ex_now (transactions (run ex_march_writes ex_fresh)) 1 = 950"
proof -
  have h: "pots_pk ex_fresh" "pots_check ex_fresh" "spec_funds_reconciled ex_now ex_fresh"
    "within_month ex_now ex_march_writes" "dates_clear (transactions ex_fresh)"
    by (simp_all add: pots_pk_def pots_check_def spec_funds_reconciled_def pots_total_def
        recomputed_balance_def dates_clear_def ex_fresh_def within_month_def same_month_def
        ex_march_writes_def ex_now_def ex_later_def)
  have c: "dates_clear (transactions (run ex_march_writes ex_fresh))"
    by (simp add: tx_simps ex_simps dates_clear_def valid_date_def last_second_def)
  have b: "balance_of (run ex_march_writes ex_fresh) 1 = Some 750"
    by (simp add: tx_simps ex_simps)
  have p: "pots_total (pots (run ex_march_writes ex_fresh)) 1 = 200"
    by (simp add: tx_simps ex_simps pots_total_def)
  from run_funds_reconciled [OF h c] b
  have "750 + pots_total (pots (run ex_march_writes ex_fresh)) 1 =
        recomputed_balance ex_now (transactions (run ex_march_writes ex_fresh)) 1"
    by blast
  with p have "recomputed_balance ex_now (transactions (run ex_march_writes ex_fresh)) 1 = 950"
    by simp
  with h c b p show ?thesis by simp
qed

section \<open>Sorting, the summary and the listing orders\<close>

lemma set_insort_by: "set (insort_by le x ys) = insert x (set ys)"
  by (induction ys) auto

lemma set_sort_by: "set (sort_by le xs) = set xs"
  by (induction xs) (simp_all add: sort_by_def set_insort_by)

lemma length_insort_by: "length (insort_by le x ys) = Suc (length ys)"
  by (induction ys) auto

lemma length_sort_by: "length (sort_by le xs) = length xs"
  by (induction xs) (simp_all add: sort_by_def length_insort_by)

lemma sort_by_Cons: "sort_by le (x # xs) = insort_by le x (sort_by le xs)"
  by (simp add: sort_by_def)

lemma sort_by_Nil: "sort_by le [] = []"
  by (simp add: sort_by_def)

lemma sorted_insort_by:
  assumes "total_rel le" "trans_rel le" "sorted_wrt le ys"
  shows "sorted_wrt le (insort_by le x ys)"
  using assms(3)
proof (induction ys)
  case Nil
  then show ?case by simp
next
  case (Cons y ys)
  show ?case
  proof (cases "le x y")
    case True
    have "\<forall>z\<in>set ys. le x z"
      using True Cons.prems assms(2) unfolding trans_rel_def by auto
    with True Cons.prems show ?thesis by simp
  next
    case False
    with assms(1) have "le y x" unfolding total_rel_def by blast
    with False Cons show ?thesis by (auto simp: set_insort_by)
  qed
qed

lemma sorted_sort_by:
  "total_rel le \<Longrightarrow> trans_rel le \<Longrightarrow> sorted_wrt le (sort_by le xs)"
  by (induction xs) (simp_all add: sort_by_Nil sort_by_Cons sorted_insort_by)

lemma filter_insort_by_length:
  "length (filter P (insort_by le x ys)) = (if P x then 1 else 0) + length (filter P ys)"
  by (induction ys) auto

lemma filter_sort_by_length: "length (filter P (sort_by le xs)) = length (filter P xs)"
  by (induction xs) (simp_all add: sort_by_Nil sort_by_Cons filter_insort_by_length)

lemma count_list_insort_by: "count_list (insort_by le x ys) b = count_list (x # ys) b"
  by (induction ys) auto

lemma count_list_sort_by: "count_list (sort_by le xs) b = count_list xs b"
  by (induction xs) (simp_all add: sort_by_Nil sort_by_Cons count_list_insort_by)

lemma count_list_js_sort: "count_list (js_sort cmp xs) b = count_list xs b"
  by (simp add: js_sort_def count_list_sort_by)

lemma counts_of_js_sort: "counts_of (summary_of (js_sort cmp bills)) = counts_of (summary_of bills)"
  by (simp add: counts_of_def summary_of_def Let_def js_sort_def filter_sort_by_length)

lemma summary_with_search:
  "resp_summary (recurring_bills_of pf now \<lparr>rb_search = Some s, rb_sort = so\<rparr> txs) =
     summary_of (if s = [] then js_sort (bill_compare pf (case so of None \<Rightarrow> ''Latest'' | Some v \<Rightarrow> v))
                                  (classified now txs)
                 else classified now txs)"
  by (simp add: recurring_bills_of_def Let_def)

lemma summary_without_search:
  "resp_summary (recurring_bills_of pf now \<lparr>rb_search = None, rb_sort = so\<rparr> txs) =
     summary_of (js_sort (bill_compare pf (case so of None \<Rightarrow> ''Latest'' | Some v \<Rightarrow> v))
                   (classified now txs))"
  by (simp add: recurring_bills_of_def Let_def)

lemma sorted_wrt_take_drop:
  "sorted_wrt R xs \<Longrightarrow> sorted_wrt R (take n (drop m xs))"
proof -
  assume a: "sorted_wrt R xs"
  have "xs = take m xs @ drop m xs" by simp
  with a have "sorted_wrt R (take m xs @ drop m xs)" by simp
  then have d: "sorted_wrt R (drop m xs)" unfolding sorted_wrt_append by blast
  have "take n (drop m xs) @ drop n (drop m xs) = drop m xs" by (rule append_take_drop_id)
  with d have "sorted_wrt R (take n (drop m xs) @ drop n (drop m xs))" by metis
  then show ?thesis unfolding sorted_wrt_append by blast
qed

lemma sorted_wrt_flip_eq: "sorted_wrt (\<lambda>a b. R b a) xs = sorted_wrt R (rev xs)"
  by (induction xs) (auto simp: sorted_wrt_append)

lemma order_rows_amount_desc:
  "sorted_wrt (\<lambda>a b. tx_amount b \<le> tx_amount a) (order_rows pf ColAmount False rows)"
  unfolding order_rows_def
  by (simp, rule sorted_sort_by) (auto simp: total_rel_def trans_rel_def)

lemma getTransactions_highest:
  assumes "getTransactions pf auth (params\<lparr>p_sort := Some ''Highest''\<rparr>) table = Inr r"
  shows "sorted_wrt (\<lambda>a b. tx_amount b \<le> tx_amount a) (r_transactions r)"
proof -
  have m: "map_of SORT_MAP ''Highest'' = Some (ColAmount, False)"
    by (simp add: SORT_MAP_def)
  from assms obtain rows n k where "r_transactions r = take n (drop k (order_rows pf ColAmount False rows))"
    by (auto simp: getTransactions_def Let_def m split: if_splits)
  then show ?thesis using order_rows_amount_desc sorted_wrt_take_drop by metis
qed

lemma js_sort_highest:
  "sorted_wrt (\<lambda>a b. \<bar>tx_amount (bill_tx b)\<bar> \<le> \<bar>tx_amount (bill_tx a)\<bar>)
     (js_sort (bill_compare pf ''Highest'') bs)"
  unfolding js_sort_def
  by (simp add: bill_compare_def, rule sorted_sort_by) (auto simp: total_rel_def trans_rel_def)

lemma recurring_bills_highest:
  "sorted_wrt (\<lambda>a b. \<bar>tx_amount (bill_tx b)\<bar> \<le> \<bar>tx_amount (bill_tx a)\<bar>)
     (resp_bills (recurring_bills_of pf now (params\<lparr>rb_sort := Some ''Highest''\<rparr>) txs))"
  by (auto simp: recurring_bills_of_def Let_def js_sort_highest split: option.splits)

text \<open>
  Claim C8, amended. Sorted by \<open>Highest\<close>, the recurring bills come by the absolute
  value of the amount, largest first; the transaction listing comes by the signed amount,
  largest first.
\<close>

theorem highest_orderings:
  "(getRecurringBills pf auth now (params\<lparr>rb_sort := Some ''Highest''\<rparr>) table = Inr r \<longrightarrow>
      sorted_wrt (\<lambda>a b. \<bar>tx_amount (bill_tx a)\<bar> \<ge> \<bar>tx_amount (bill_tx b)\<bar>) (resp_bills r)) \<and>
   (getTransactions pf auth (tparams\<lparr>p_sort := Some ''Highest''\<rparr>) table = Inr r' \<longrightarrow>
      sorted_wrt (\<lambda>a b. tx_amount a \<ge> tx_amount b) (r_transactions r'))"
  using getTransactions_highest recurring_bills_highest
  by (auto simp: getRecurringBills_def split: sum.splits)

section \<open>Recurring-bill classification\<close>

lemma ts_less_irrefl: "\<not> ts_less a a"
  by (simp add: ts_less_def)

lemma ts_less_trans: "ts_less a b \<Longrightarrow> ts_less b c \<Longrightarrow> ts_less a c"
  unfolding ts_less_def by (elim disjE conjE) simp_all

lemma ts_less_asym: "ts_less a b \<Longrightarrow> \<not> ts_less b a"
  using ts_less_trans ts_less_irrefl by blast

lemma ts_not_less_trans: "\<not> ts_less a b \<Longrightarrow> \<not> ts_less b c \<Longrightarrow> \<not> ts_less a c"
  unfolding ts_less_def by (cases "yr a < yr c") (auto simp: not_less)

lemma pg_less_irrefl: "\<not> pg_less a a"
  by (simp add: pg_less_def)

lemma pg_less_trans: "pg_less a b \<Longrightarrow> pg_less b c \<Longrightarrow> pg_less a c"
  unfolding pg_less_def by (elim disjE conjE) simp_all

lemma pg_less_asym: "pg_less a b \<Longrightarrow> \<not> pg_less b a"
  using pg_less_trans pg_less_irrefl by blast

lemma pg_not_less_trans: "\<not> pg_less a b \<Longrightarrow> \<not> pg_less b c \<Longrightarrow> \<not> pg_less a c"
  unfolding pg_less_def by (cases "yr a < yr c") (auto simp: not_less)

lemma pg_le_ts_le: "pg_le a b \<Longrightarrow> ts_le a b"
  unfolding pg_le_def ts_le_def pg_less_def ts_less_def by blast

lemma ts_later_dominates: "\<not> ts_less cur t \<Longrightarrow> ts_less cur new \<Longrightarrow> \<not> ts_less new t"
  using ts_less_trans by blast

lemma map_fst_map_set:
  "map fst (map_set k v m) = (if k \<in> fst ` set m then map fst m else map fst m @ [k])"
  by (induction k v m rule: map_set.induct) (auto simp: image_iff)

lemma set_map_set:
  "distinct (map fst m) \<Longrightarrow>
   set (map_set k v m) = insert (k, v) {e \<in> set m. fst e \<noteq> k}"
proof (induction k v m rule: map_set.induct)
  case (1 k v)
  then show ?case by simp
next
  case (2 k v k' v' m)
  show ?case
  proof (cases "k' = k")
    case True
    with "2.prems" have "\<forall>e\<in>set m. fst e \<noteq> k" by (auto simp: image_iff)
    then have "{e \<in> set ((k', v') # m). fst e \<noteq> k} = set m" using True by auto
    with True show ?thesis by simp
  next
    case False
    with "2.prems" "2.IH" have "set (map_set k v m) = insert (k, v) {e \<in> set m. fst e \<noteq> k}"
      by simp
    with False show ?thesis by auto
  qed
qed

lemma bm_inv_step:
  assumes "bm_inv m seen"
  shows "bm_inv (billMap_step m tx) (seen @ [tx])"
proof (cases "map_of m (tx_name tx)")
  case None
  then have notin: "tx_name tx \<notin> fst ` set m" by (simp add: map_of_eq_None_iff)
  have step: "billMap_step m tx = map_set (tx_name tx) tx m"
    using None by (simp add: billMap_step_def)
  from assms have d: "distinct (map fst m)" by (simp add: bm_inv_def)
  have s: "set (map_set (tx_name tx) tx m) = insert (tx_name tx, tx) (set m)"
    using set_map_set [OF d, of "tx_name tx" tx] notin by (auto simp: image_iff)
  have "fst ` set m = tx_name ` set seen" using assms by (simp add: bm_inv_def)
  with notin have new_only: "\<forall>t\<in>set seen. tx_name t \<noteq> tx_name tx"
    by (metis imageI)
  show ?thesis
    unfolding bm_inv_def step
  proof (intro conjI)
    show "distinct (map fst (map_set (tx_name tx) tx m))"
      using d notin by (simp add: map_fst_map_set)
    show "fst ` set (map_set (tx_name tx) tx m) = tx_name ` set (seen @ [tx])"
      using assms by (auto simp: s bm_inv_def)
    show "\<forall>(k, v)\<in>set (map_set (tx_name tx) tx m).
            tx_name v = k \<and> v \<in> set (seen @ [tx]) \<and>
            (\<forall>t\<in>set (seen @ [tx]). tx_name t = k \<longrightarrow> \<not> ts_less (tx_date v) (tx_date t))"
      using assms new_only notin unfolding s bm_inv_def
      by (auto simp: ts_less_irrefl image_iff)
  qed
next
  case (Some cur)
  then have cur_in: "(tx_name tx, cur) \<in> set m" by (rule map_of_SomeD)
  from assms have d: "distinct (map fst m)" by (simp add: bm_inv_def)
  from assms cur_in have cur: "tx_name cur = tx_name tx" "cur \<in> set seen"
    "\<forall>t\<in>set seen. tx_name t = tx_name tx \<longrightarrow> \<not> ts_less (tx_date cur) (tx_date t)"
    by (auto simp: bm_inv_def)
  have key_in: "tx_name tx \<in> fst ` set m" using cur_in by force
  show ?thesis
  proof (cases "ts_less (tx_date cur) (tx_date tx)")
    case True
    have step: "billMap_step m tx = map_set (tx_name tx) tx m"
      using Some True by (simp add: billMap_step_def)
    have s: "set (map_set (tx_name tx) tx m) = insert (tx_name tx, tx) {e \<in> set m. fst e \<noteq> tx_name tx}"
      by (rule set_map_set [OF d])
    have dom_new: "\<forall>t\<in>set seen. tx_name t = tx_name tx \<longrightarrow> \<not> ts_less (tx_date tx) (tx_date t)"
      using cur(3) True ts_later_dominates by blast
    show ?thesis
      unfolding bm_inv_def step
    proof (intro conjI)
      show "distinct (map fst (map_set (tx_name tx) tx m))"
        using d key_in by (simp add: map_fst_map_set)
      have "fst ` set (map_set (tx_name tx) tx m) = fst ` set m"
        using key_in by (metis map_fst_map_set set_map)
      then show "fst ` set (map_set (tx_name tx) tx m) = tx_name ` set (seen @ [tx])"
        using assms key_in by (auto simp: bm_inv_def)
      show "\<forall>(k, v)\<in>set (map_set (tx_name tx) tx m).
            tx_name v = k \<and> v \<in> set (seen @ [tx]) \<and>
            (\<forall>t\<in>set (seen @ [tx]). tx_name t = k \<longrightarrow> \<not> ts_less (tx_date v) (tx_date t))"
        using assms dom_new unfolding s bm_inv_def
        by (auto simp: ts_less_irrefl)
    qed
  next
    case False
    have step: "billMap_step m tx = m"
      using Some False by (simp add: billMap_step_def)
    show ?thesis
      unfolding bm_inv_def step
    proof (intro conjI)
      show "distinct (map fst m)" by (rule d)
      show "fst ` set m = tx_name ` set (seen @ [tx])"
        using assms key_in by (auto simp: bm_inv_def)
      show "\<forall>(k, v)\<in>set m.
            tx_name v = k \<and> v \<in> set (seen @ [tx]) \<and>
            (\<forall>t\<in>set (seen @ [tx]). tx_name t = k \<longrightarrow> \<not> ts_less (tx_date v) (tx_date t))"
      proof (clarify, intro conjI ballI impI)
        fix k v assume kv: "(k, v) \<in> set m"
        with assms show "tx_name v = k" by (auto simp: bm_inv_def)
        from kv assms show "v \<in> set (seen @ [tx])" by (auto simp: bm_inv_def)
        fix t assume t: "t \<in> set (seen @ [tx])" "tx_name t = k"
        show "\<not> ts_less (tx_date v) (tx_date t)"
        proof (cases "t \<in> set seen")
          case True
          with kv t(2) assms show ?thesis by (auto simp: bm_inv_def)
        next
          case False
          with t have tt: "t = tx" "k = tx_name tx" by auto
          with kv cur_in d have "v = cur"
            by (metis Some map_of_is_SomeI option.inject)
          with False tt \<open>\<not> ts_less (tx_date cur) (tx_date tx)\<close> show ?thesis by simp
        qed
      qed
    qed
  qed
qed

lemma bm_inv_foldl: "bm_inv (foldl billMap_step [] xs) xs"
proof (induction xs rule: rev_induct)
  case Nil
  then show ?case by (simp add: bm_inv_def)
next
  case (snoc x xs)
  then show ?case using bm_inv_step by simp
qed

lemma paid_iff_same_month:
  assumes "valid_date d"
  shows "(ts_le (month_start now) d \<and> ts_le d (CURRENT_MONTH_END now)) = same_month now d"
proof (cases "yr d = yr now \<and> mon d = mon now")
  case True
  with assms show ?thesis
    by (auto simp: ts_le_def ts_less_def month_start_def CURRENT_MONTH_END_def same_month_def
        valid_date_def)
next
  case False
  then show ?thesis
    by (auto simp: ts_le_def ts_less_def month_start_def CURRENT_MONTH_END_def same_month_def)
qed

lemma classify_fields:
  "bill_tx (classify now tx) = tx" "dueDay (classify now tx) = dom (tx_date tx)"
  by (simp_all add: classify_def Let_def)

lemma classify_status:
  assumes "valid_date (tx_date tx)"
  shows "(status (classify now tx) = Paid \<longleftrightarrow> same_month now (tx_date tx))"
    and "(status (classify now tx) = DueSoon \<longleftrightarrow>
           \<not> same_month now (tx_date tx) \<and> dom now < dom (tx_date tx) \<and> dom (tx_date tx) \<le> dom now + 5)"
    and "(status (classify now tx) = Upcoming \<longleftrightarrow>
           \<not> same_month now (tx_date tx) \<and> \<not> (dom now < dom (tx_date tx) \<and> dom (tx_date tx) \<le> dom now + 5))"
  using paid_iff_same_month [OF assms, of now]
  by (auto simp: classify_def Let_def)

lemma uniqueBills_props:
  "distinct (map tx_name (uniqueBills txs))"
  "tx_name ` set (uniqueBills txs) = tx_name ` {t \<in> set txs. recurring_expense t}"
  "\<forall>v\<in>set (uniqueBills txs). v \<in> set txs \<and> recurring_expense v \<and>
      (\<forall>t\<in>set txs. recurring_expense t \<and> tx_name t = tx_name v \<longrightarrow>
          \<not> ts_less (tx_date v) (tx_date t))"
proof -
  define R where "R = filter (\<lambda>tx. tx_recurring tx \<and> tx_amount tx < 0) txs"
  define m where "m = foldl billMap_step [] R"
  have u: "uniqueBills txs = map snd m"
    by (simp add: uniqueBills_def Let_def m_def R_def)
  have inv: "bm_inv m R" unfolding m_def by (rule bm_inv_foldl)
  have R: "set R = {t \<in> set txs. recurring_expense t}"
    by (auto simp: R_def recurring_expense_def)
  have names: "map tx_name (map snd m) = map fst m"
    using inv by (auto simp: bm_inv_def)
  show "distinct (map tx_name (uniqueBills txs))"
    unfolding u names using inv by (simp add: bm_inv_def)
  have "tx_name ` set (map snd m) = fst ` set m"
    using names by (metis set_map)
  then show "tx_name ` set (uniqueBills txs) = tx_name ` {t \<in> set txs. recurring_expense t}"
    using inv R by (simp add: u bm_inv_def)
  show "\<forall>v\<in>set (uniqueBills txs). v \<in> set txs \<and> recurring_expense v \<and>
      (\<forall>t\<in>set txs. recurring_expense t \<and> tx_name t = tx_name v \<longrightarrow>
          \<not> ts_less (tx_date v) (tx_date t))"
  proof
    fix v assume "v \<in> set (uniqueBills txs)"
    then obtain k where kv: "(k, v) \<in> set m" by (auto simp: u)
    with inv have "tx_name v = k" "v \<in> set R"
      "\<forall>t\<in>set R. tx_name t = k \<longrightarrow> \<not> ts_less (tx_date v) (tx_date t)"
      by (auto simp: bm_inv_def)
    then show "v \<in> set txs \<and> recurring_expense v \<and>
      (\<forall>t\<in>set txs. recurring_expense t \<and> tx_name t = tx_name v \<longrightarrow>
          \<not> ts_less (tx_date v) (tx_date t))"
      using R by auto
  qed
qed

lemma resp_bills_subset:
  "set (resp_bills (recurring_bills_of pf now params txs)) \<subseteq> set (classified now txs)"
  by (auto simp: recurring_bills_of_def Let_def js_sort_def set_sort_by split: option.splits)

text \<open>
  Claim C7. On the transactions fetched, all dated validly: the bills carry pairwise
  different names, exactly the names of the recurring expenses; each bill is one of those
  recurring expenses and none of the same name is dated later; \<open>dueDay\<close> is the day of
  month of its date; its status is paid exactly when the date is in the month of \<open>now\<close>,
  due-soon exactly when it is not paid and the due day is after today's day of month and at
  most five days after it, and upcoming exactly otherwise. The bills returned are among
  them.
\<close>

theorem recurring_bill_classification:
  assumes "\<forall>t\<in>set txs. valid_date (tx_date t)"
  shows "distinct (map (\<lambda>b. tx_name (bill_tx b)) (classified now txs)) \<and>
         (\<lambda>b. tx_name (bill_tx b)) ` set (classified now txs) =
           tx_name ` {t \<in> set txs. recurring_expense t} \<and>
         (\<forall>b\<in>set (classified now txs).
            bill_tx b \<in> set txs \<and> recurring_expense (bill_tx b) \<and>
            (\<forall>t\<in>set txs. recurring_expense t \<and> tx_name t = tx_name (bill_tx b) \<longrightarrow>
                \<not> ts_less (tx_date (bill_tx b)) (tx_date t)) \<and>
            dueDay b = dom (tx_date (bill_tx b)) \<and>
            (status b = Paid \<longleftrightarrow> same_month now (tx_date (bill_tx b))) \<and>
            (status b = DueSoon \<longleftrightarrow>
               \<not> same_month now (tx_date (bill_tx b)) \<and> dom now < dueDay b \<and> dueDay b \<le> dom now + 5) \<and>
            (status b = Upcoming \<longleftrightarrow>
               \<not> same_month now (tx_date (bill_tx b)) \<and>
               \<not> (dom now < dueDay b \<and> dueDay b \<le> dom now + 5))) \<and>
         set (resp_bills (recurring_bills_of pf now params txs)) \<subseteq> set (classified now txs)"
proof -
  have "map (\<lambda>b. tx_name (bill_tx b)) (classified now txs) = map tx_name (uniqueBills txs)"
    by (simp add: classified_def classify_fields comp_def)
  then have A: "distinct (map (\<lambda>b. tx_name (bill_tx b)) (classified now txs))"
    using uniqueBills_props(1) by simp
  have "(\<lambda>b. tx_name (bill_tx b)) ` set (classified now txs) = tx_name ` set (uniqueBills txs)"
    by (simp add: classified_def image_image classify_fields)
  then have B: "(\<lambda>b. tx_name (bill_tx b)) ` set (classified now txs) =
           tx_name ` {t \<in> set txs. recurring_expense t}"
    using uniqueBills_props(2) by simp
  have D: "set (resp_bills (recurring_bills_of pf now params txs)) \<subseteq> set (classified now txs)"
    by (rule resp_bills_subset)
  have C: "\<forall>b\<in>set (classified now txs).
            bill_tx b \<in> set txs \<and> recurring_expense (bill_tx b) \<and>
            (\<forall>t\<in>set txs. recurring_expense t \<and> tx_name t = tx_name (bill_tx b) \<longrightarrow>
                \<not> ts_less (tx_date (bill_tx b)) (tx_date t)) \<and>
            dueDay b = dom (tx_date (bill_tx b)) \<and>
            (status b = Paid \<longleftrightarrow> same_month now (tx_date (bill_tx b))) \<and>
            (status b = DueSoon \<longleftrightarrow>
               \<not> same_month now (tx_date (bill_tx b)) \<and> dom now < dueDay b \<and> dueDay b \<le> dom now + 5) \<and>
            (status b = Upcoming \<longleftrightarrow>
               \<not> same_month now (tx_date (bill_tx b)) \<and>
               \<not> (dom now < dueDay b \<and> dueDay b \<le> dom now + 5))"
  proof
    fix b assume "b \<in> set (classified now txs)"
    then obtain v where v: "v \<in> set (uniqueBills txs)" "b = classify now v"
      by (auto simp: classified_def)
    with uniqueBills_props(3) [of txs] have p: "v \<in> set txs" "recurring_expense v"
      "\<forall>t\<in>set txs. recurring_expense t \<and> tx_name t = tx_name v \<longrightarrow>
          \<not> ts_less (tx_date v) (tx_date t)"
      by auto
    with assms have vd: "valid_date (tx_date v)" by simp
    have f: "bill_tx b = v" "dueDay b = dom (tx_date v)"
      using v(2) by (simp_all add: classify_fields)
    show "bill_tx b \<in> set txs \<and> recurring_expense (bill_tx b) \<and>
            (\<forall>t\<in>set txs. recurring_expense t \<and> tx_name t = tx_name (bill_tx b) \<longrightarrow>
                \<not> ts_less (tx_date (bill_tx b)) (tx_date t)) \<and>
            dueDay b = dom (tx_date (bill_tx b)) \<and>
            (status b = Paid \<longleftrightarrow> same_month now (tx_date (bill_tx b))) \<and>
            (status b = DueSoon \<longleftrightarrow>
               \<not> same_month now (tx_date (bill_tx b)) \<and> dom now < dueDay b \<and> dueDay b \<le> dom now + 5) \<and>
            (status b = Upcoming \<longleftrightarrow>
               \<not> same_month now (tx_date (bill_tx b)) \<and>
               \<not> (dom now < dueDay b \<and> dueDay b \<le> dom now + 5))"
      unfolding f using p classify_status [OF vd, of now] unfolding v(2) [symmetric]
      by simp
  qed
  from A B C D show ?thesis by simp
qed

section \<open>The page of 500 transactions\<close>

lemma insort_by_front: "sorted_wrt le (x # xs) \<Longrightarrow> insort_by le x xs = x # xs"
  by (cases xs) simp_all

lemma sort_by_sorted: "sorted_wrt le xs \<Longrightarrow> sort_by le xs = xs"
  by (induction xs) (simp_all add: sort_by_Nil sort_by_Cons insort_by_front)

lemma remove1_insort_by_same:
  "refl_rel le \<Longrightarrow> remove1 x (insort_by le x ys) = ys"
  by (induction ys) (auto simp: refl_rel_def)

lemma remove1_insort_by_other:
  assumes "trans_rel le" "t \<noteq> x" "sorted_wrt le ys"
  shows "remove1 t (insort_by le x ys) = insort_by le x (remove1 t ys)"
  using assms(3)
proof (induction ys)
  case Nil
  then show ?case using assms(2) by simp
next
  case (Cons y ys)
  show ?case
  proof (cases "le x y")
    case True
    show ?thesis
    proof (cases "t = y")
      case t: True
      have "sorted_wrt le (x # ys)"
        using True Cons.prems assms(1) unfolding trans_rel_def by auto
      then have "insort_by le x ys = x # ys" by (rule insort_by_front)
      with True t assms(2) show ?thesis by simp
    next
      case False
      with True assms(2) show ?thesis by simp
    qed
  next
    case False
    with Cons assms(2) show ?thesis by simp
  qed
qed

lemma remove1_sort_by:
  assumes "refl_rel le" "total_rel le" "trans_rel le"
  shows "sort_by le (remove1 t xs) = remove1 t (sort_by le xs)"
proof (induction xs)
  case Nil
  then show ?case by (simp add: sort_by_Nil)
next
  case (Cons x xs)
  show ?case
  proof (cases "t = x")
    case True
    then show ?thesis using assms(1) by (simp add: sort_by_Cons remove1_insort_by_same)
  next
    case False
    have "sorted_wrt le (sort_by le xs)" using assms(2,3) by (rule sorted_sort_by)
    with False Cons assms(3) show ?thesis
      by (simp add: sort_by_Cons remove1_insort_by_other)
  qed
qed

lemma take_remove1: "t \<notin> set (take n xs) \<Longrightarrow> take n (remove1 t xs) = take n xs"
proof (induction xs arbitrary: n)
  case Nil
  then show ?case by simp
next
  case (Cons x xs)
  then show ?case by (cases n) auto
qed

lemma filter_remove1: "filter P (remove1 t xs) = (if P t then remove1 t (filter P xs) else filter P xs)"
  by (induction xs) auto

lemma date_desc_refl: "refl_rel (\<lambda>a b. column_le pf ColDate b a)"
  by (simp add: refl_rel_def pg_le_def pg_less_irrefl)

lemma date_desc_total: "total_rel (\<lambda>a b. column_le pf ColDate b a)"
proof -
  have "\<not> pg_less (tx_date a) (tx_date b) \<or> \<not> pg_less (tx_date b) (tx_date a)" for a b :: transaction
    using pg_less_asym by blast
  then show ?thesis by (simp add: total_rel_def pg_le_def)
qed

lemma date_desc_trans: "trans_rel (\<lambda>a b. column_le pf ColDate b a)"
proof -
  have "\<not> pg_less (tx_date a) (tx_date b) \<Longrightarrow> \<not> pg_less (tx_date b) (tx_date c) \<Longrightarrow>
        \<not> pg_less (tx_date a) (tx_date c)" for a b c :: transaction
    by (rule pg_not_less_trans)
  then show ?thesis unfolding trans_rel_def by (simp add: pg_le_def)
qed

lemma order_rows_date_desc:
  "order_rows pf ColDate False rows = sort_by (\<lambda>a b. column_le pf ColDate b a) rows"
  by (simp add: order_rows_def)

lemma page500_remove1:
  assumes "t \<notin> set (page500 pf auth table)"
  shows "page500 pf auth (remove1 t table) = page500 pf auth table"
proof (cases "own_row auth t")
  case True
  have "order_rows pf ColDate False (remove1 t (filter (own_row auth) table)) =
        remove1 t (order_rows pf ColDate False (filter (own_row auth) table))"
    unfolding order_rows_date_desc by (rule remove1_sort_by [OF date_desc_refl date_desc_total date_desc_trans])
  with True assms show ?thesis
    by (simp add: page500_def filter_remove1 take_remove1)
next
  case False
  then show ?thesis by (simp add: page500_def filter_remove1)
qed

lemma getTransactions_500:
  "getTransactions pf auth (no_params\<lparr>p_limit := Some 500\<rparr>) table =
     Inr \<lparr>r_transactions = page500 pf auth table,
          r_total = int (length (filter (own_row auth) table)), r_page = 1,
          r_pages = \<lceil>rat_of_int (int (length (filter (own_row auth) table))) / 500\<rceil>, r_limit = 500\<rparr>"
  by (simp add: getTransactions_def no_params_def Let_def SORT_MAP_def page500_def
      order_rows_def length_sort_by)

lemma getRecurringBills_page500:
  "getRecurringBills pf auth now params table =
     Inr (recurring_bills_of pf now params (page500 pf auth table))"
  by (simp add: getRecurringBills_def getTransactions_500)

lemma page500_sorted:
  "sorted_wrt (\<lambda>a b. pg_le (tx_date b) (tx_date a)) (page500 pf auth table)"
proof -
  have "sorted_wrt (\<lambda>a b. column_le pf ColDate b a) (order_rows pf ColDate False (filter (own_row auth) table))"
    unfolding order_rows_date_desc by (rule sorted_sort_by [OF date_desc_total date_desc_trans])
  then have "sorted_wrt (\<lambda>a b. column_le pf ColDate b a)
     (take 500 (drop 0 (order_rows pf ColDate False (filter (own_row auth) table))))"
    by (rule sorted_wrt_take_drop)
  then show ?thesis by (simp add: page500_def)
qed

lemma page500_sorted_ms:
  "sorted_wrt (\<lambda>a b. ts_le (tx_date b) (tx_date a)) (page500 pf auth table)"
  by (rule sorted_wrt_mono_rel [OF _ page500_sorted]) (simp add: pg_le_ts_le)

text \<open>
  Claim C9. \<open>getRecurringBills\<close> computes bills and summary from one page of at most 500
  of the caller's transactions, latest first (as JavaScript dates and to the microsecond
  of the store); a transaction that is not on that page is invisible: with it deleted from
  the table the function returns the same.
\<close>

theorem recurring_bills_from_one_page:
  "getRecurringBills pf auth now params table =
     Inr (recurring_bills_of pf now params (page500 pf auth table)) \<and>
   length (page500 pf auth table) \<le> 500 \<and>
   sorted_wrt (\<lambda>a b. ts_le (tx_date b) (tx_date a)) (page500 pf auth table) \<and>
   sorted_wrt (\<lambda>a b. pg_le (tx_date b) (tx_date a)) (page500 pf auth table) \<and>
   (\<forall>t. t \<notin> set (page500 pf auth table) \<longrightarrow>
        getRecurringBills pf auth now params (remove1 t table) =
        getRecurringBills pf auth now params table)"
proof (intro conjI allI impI)
  show "getRecurringBills pf auth now params table =
     Inr (recurring_bills_of pf now params (page500 pf auth table))"
    by (rule getRecurringBills_page500)
  show "length (page500 pf auth table) \<le> 500"
    by (simp add: page500_def)
  show "sorted_wrt (\<lambda>a b. ts_le (tx_date b) (tx_date a)) (page500 pf auth table)"
    by (rule page500_sorted_ms)
  show "sorted_wrt (\<lambda>a b. pg_le (tx_date b) (tx_date a)) (page500 pf auth table)"
    by (rule page500_sorted)
  fix t assume "t \<notin> set (page500 pf auth table)"
  then have "page500 pf auth (remove1 t table) = page500 pf auth table"
    by (rule page500_remove1)
  then show "getRecurringBills pf auth now params (remove1 t table) =
        getRecurringBills pf auth now params table"
    by (simp only: getRecurringBills_page500)
qed

text \<open>
  Claim C10, amended. For every search string and whatever the sort options, the summary
  with the search has the same four counts as the summary without a search on the same
  table, and both summaries are taken from the same bills: without a search (or with the
  empty string) from the bills as the sort in place leaves them, with a search from the
  bills as fetched. The amounts are sums of doubles added in those two orders.
\<close>

theorem search_keeps_counts:
  "map_sum id (\<lambda>r. counts_of (resp_summary r))
      (getRecurringBills pf auth now \<lparr>rb_search = Some s, rb_sort = so\<rparr> table) =
   map_sum id (\<lambda>r. counts_of (resp_summary r))
      (getRecurringBills pf auth now \<lparr>rb_search = None, rb_sort = so'\<rparr> table) \<and>
   map_sum id resp_summary
      (getRecurringBills pf auth now \<lparr>rb_search = Some s, rb_sort = so\<rparr> table) =
     Inr (summary_of
           (if s = []
            then js_sort (bill_compare pf (case so of None \<Rightarrow> ''Latest'' | Some v \<Rightarrow> v))
                   (classified now (page500 pf auth table))
            else classified now (page500 pf auth table))) \<and>
   map_sum id resp_summary
      (getRecurringBills pf auth now \<lparr>rb_search = None, rb_sort = so'\<rparr> table) =
     Inr (summary_of
           (js_sort (bill_compare pf (case so' of None \<Rightarrow> ''Latest'' | Some v \<Rightarrow> v))
              (classified now (page500 pf auth table)))) \<and>
   (\<forall>cmp b. count_list (js_sort cmp (classified now (page500 pf auth table))) b =
            count_list (classified now (page500 pf auth table)) b)"
  by (simp add: getRecurringBills_page500 summary_with_search summary_without_search
      counts_of_js_sort count_list_js_sort)

section \<open>The client queries on sample data\<close>

lemmas bill_simps = getRecurringBills_def getTransactions_def recurring_bills_of_def classified_def
  uniqueBills_def billMap_step_def classify_def summary_of_def abs_sum_def js_sort_def sort_by_def
  bill_compare_def order_rows_def SORT_MAP_def no_params_def own_row_def
  month_start_def CURRENT_MONTH_END_def days_in_month_def leap_year_def ts_le_def ts_less_def pg_le_def pg_less_def
  ex_txs_def ex_tx_def ex_now_def ex_pf_def Let_def amounts_listed_def bills_listed_def

lemma sorted_wrt_always: "(\<And>x y. R x y) \<Longrightarrow> sorted_wrt R xs"
  by (induction xs) simp_all

text \<open>
  Claim C8 as stated fails for the transaction listing: sorted by \<open>Highest\<close>, the
  expense of 15 is listed before the expense of 40, and the expense of 900 comes last.
\<close>

theorem highest_listing_counterexample:
  "amounts_listed (getTransactions ex_pf (Some 1) (no_params\<lparr>p_sort := Some ''Highest''\<rparr>) ex_txs)
     = Inr [2500, - 15, - 15, - 40, - 900] \<and> \<bar>- 15 :: rat\<bar> < \<bar>- 40\<bar>"
  by (simp add: bill_simps)

text \<open>Claim C8, amended, on the sample transactions.\<close>

theorem highest_orderings_witness:
  "bills_listed (getRecurringBills ex_pf (Some 1) ex_now (no_search\<lparr>rb_sort := Some ''Highest''\<rparr>) ex_txs)
     = Inr [(''Rent'', Upcoming, 1), (''Gym'', DueSoon, 18), (''Netflix'', Paid, 5)] \<and>
   (\<exists>r. getRecurringBills ex_pf (Some 1) ex_now (no_search\<lparr>rb_sort := Some ''Highest''\<rparr>) ex_txs = Inr r \<and>
        sorted_wrt (\<lambda>a b. \<bar>tx_amount (bill_tx a)\<bar> \<ge> \<bar>tx_amount (bill_tx b)\<bar>) (resp_bills r)) \<and>
   (\<exists>r'. getTransactions ex_pf (Some 1) (no_params\<lparr>p_sort := Some ''Highest''\<rparr>) ex_txs = Inr r' \<and>
        sorted_wrt (\<lambda>a b. tx_amount a \<ge> tx_amount b) (r_transactions r'))"
proof -
  have l: "bills_listed (getRecurringBills ex_pf (Some 1) ex_now (no_search\<lparr>rb_sort := Some ''Highest''\<rparr>) ex_txs)
     = Inr [(''Rent'', Upcoming, 1), (''Gym'', DueSoon, 18), (''Netflix'', Paid, 5)]"
    by (simp add: bill_simps no_search_def)
  obtain r where r: "getRecurringBills ex_pf (Some 1) ex_now (no_search\<lparr>rb_sort := Some ''Highest''\<rparr>) ex_txs = Inr r"
    by (simp add: getRecurringBills_page500)
  obtain r' where r': "getTransactions ex_pf (Some 1) (no_params\<lparr>p_sort := Some ''Highest''\<rparr>) ex_txs = Inr r'"
    by (simp add: getTransactions_def no_params_def Let_def SORT_MAP_def)
  from highest_orderings [of ex_pf "Some 1" ex_now no_search ex_txs r no_params r'] r r'
  have "sorted_wrt (\<lambda>a b. \<bar>tx_amount (bill_tx a)\<bar> \<ge> \<bar>tx_amount (bill_tx b)\<bar>) (resp_bills r)"
    "sorted_wrt (\<lambda>a b. tx_amount a \<ge> tx_amount b) (r_transactions r')"
    by simp_all
  with l r r' show ?thesis by simp
qed

text \<open>Claim C7 on the sample transactions: the gym and the two Netflix payments.\<close>

theorem recurring_bill_classification_witness:
  "list_all (\<lambda>t. valid_date (tx_date t)) ex_txs \<and>
   classify ex_now ex_gym \<in> set (classified ex_now ex_txs) \<and>
   status (classify ex_now ex_gym) = DueSoon \<and> dueDay (classify ex_now ex_gym) = 18 \<and>
   classify ex_now ex_netflix_mar \<in> set (classified ex_now ex_txs) \<and>
   status (classify ex_now ex_netflix_mar) = Paid \<and>
   \<not> ts_less (tx_date ex_netflix_mar) (tx_date ex_netflix_feb)"
proof -
  have v: "\<forall>t\<in>set ex_txs. valid_date (tx_date t)"
    by (simp add: ex_txs_def ex_tx_def valid_date_def days_in_month_def leap_year_def)
  have m: "classify ex_now ex_gym \<in> set (classified ex_now ex_txs)"
    "classify ex_now ex_netflix_mar \<in> set (classified ex_now ex_txs)"
    by (simp_all add: classified_def uniqueBills_def billMap_step_def ts_less_def ex_txs_def
        ex_tx_def ex_gym_def ex_netflix_mar_def Let_def)
  have f: "bill_tx (classify ex_now ex_gym) = ex_gym"
    "bill_tx (classify ex_now ex_netflix_mar) = ex_netflix_mar"
    by (simp_all add: classify_def Let_def)
  have i: "ex_netflix_feb \<in> set ex_txs" "recurring_expense ex_netflix_feb"
    "tx_name ex_netflix_feb = tx_name ex_netflix_mar"
    by (simp_all add: ex_txs_def ex_netflix_feb_def ex_netflix_mar_def ex_tx_def recurring_expense_def)
  have d: "\<not> same_month ex_now (tx_date ex_gym)" "dom ex_now < dom (tx_date ex_gym)"
    "dom (tx_date ex_gym) \<le> dom ex_now + 5" "dom (tx_date ex_gym) = 18"
    "same_month ex_now (tx_date ex_netflix_mar)"
    by (simp_all add: same_month_def ex_now_def ex_gym_def ex_netflix_mar_def ex_tx_def)
  note c = recurring_bill_classification [OF v, of ex_now ex_pf no_search]
  from c m(1) have g: "dueDay (classify ex_now ex_gym) = dom (tx_date (bill_tx (classify ex_now ex_gym)))"
    "status (classify ex_now ex_gym) = DueSoon \<longleftrightarrow>
       \<not> same_month ex_now (tx_date (bill_tx (classify ex_now ex_gym))) \<and>
       dom ex_now < dueDay (classify ex_now ex_gym) \<and> dueDay (classify ex_now ex_gym) \<le> dom ex_now + 5"
    by blast+
  from c m(2) have n: "status (classify ex_now ex_netflix_mar) = Paid \<longleftrightarrow>
       same_month ex_now (tx_date (bill_tx (classify ex_now ex_netflix_mar)))"
    "\<forall>t\<in>set ex_txs. recurring_expense t \<and> tx_name t = tx_name (bill_tx (classify ex_now ex_netflix_mar)) \<longrightarrow>
        \<not> ts_less (tx_date (bill_tx (classify ex_now ex_netflix_mar))) (tx_date t)"
    by blast+
  from n(2) i have "\<not> ts_less (tx_date ex_netflix_mar) (tx_date ex_netflix_feb)"
    unfolding f by blast
  moreover from g d have "status (classify ex_now ex_gym) = DueSoon" "dueDay (classify ex_now ex_gym) = 18"
    unfolding f by simp_all
  moreover from n(1) d have "status (classify ex_now ex_netflix_mar) = Paid"
    unfolding f by simp
  ultimately show ?thesis using v m by (simp add: list_all_iff)
qed

text \<open>Claim C9 on the table of 501 rows: the expense of 2020 is not on the page.\<close>

theorem recurring_bills_from_one_page_witness:
  "recurring_expense ex_old \<and> length ex_big = 501 \<and> ex_old \<in> set ex_big \<and>
   ex_old \<notin> set (page500 ex_pf (Some 1) ex_big) \<and>
   getRecurringBills ex_pf (Some 1) ex_now no_search (remove1 ex_old ex_big) =
   getRecurringBills ex_pf (Some 1) ex_now no_search ex_big"
proof -
  have own: "filter (own_row (Some 1)) ex_big = ex_big"
    by (simp add: ex_big_def own_row_def ex_tx_def ex_old_def filter_map comp_def)
  have srt: "sorted_wrt (\<lambda>a b. column_le ex_pf ColDate b a) ex_big"
    unfolding ex_big_def sorted_wrt_append sorted_wrt_map
    by (auto simp: ex_tx_def ex_old_def pg_le_def pg_less_def intro!: sorted_wrt_always)
  have "sort_by (\<lambda>a b. column_le ex_pf ColDate b a) ex_big = ex_big"
    by (rule sort_by_sorted [OF srt])
  then have "page500 ex_pf (Some 1) ex_big = take 500 ex_big"
    by (simp only: page500_def own order_rows_date_desc)
  also have "\<dots> = map (\<lambda>i. ex_tx i 1 ''Water'' 2024 3 1 (- 20) True) [0..<500]"
    by (simp add: ex_big_def)
  finally have notin: "ex_old \<notin> set (page500 ex_pf (Some 1) ex_big)"
    by (auto simp: ex_old_def ex_tx_def)
  from recurring_bills_from_one_page [of ex_pf "Some 1" ex_now no_search ex_big] notin
  have "getRecurringBills ex_pf (Some 1) ex_now no_search (remove1 ex_old ex_big) =
        getRecurringBills ex_pf (Some 1) ex_now no_search ex_big"
    by blast
  with notin show ?thesis
    by (simp add: recurring_expense_def ex_old_def ex_tx_def ex_big_def)
qed

text \<open>
  The three bills of \<open>ex_dimes\<close> as fetched (latest first) and as the sort by \<open>Latest\<close>
  (by due day) leaves them, and their amounts added in either order: 0.1 + 0.2 + 0.3 is
  0.6000000000000001 and 0.3 + 0.2 + 0.1 is 0.6.
\<close>

lemma dimes_bills:
  "classified ex_now (page500 ex_pf (Some 1) ex_dimes) =
     [\<lparr>bill_tx = ex_tx 301 1 ''Tea'' 2024 2 3 (- (1 / 10)) True, status = Upcoming, dueDay = 3\<rparr>,
      \<lparr>bill_tx = ex_tx 302 1 ''Bus'' 2024 1 2 (- (2 / 10)) True, status = Upcoming, dueDay = 2\<rparr>,
      \<lparr>bill_tx = ex_tx 303 1 ''App'' 2023 12 1 (- (3 / 10)) True, status = Upcoming, dueDay = 1\<rparr>]"
  by (simp add: page500_def bill_simps ex_dimes_def)

lemma dimes_sorted:
  "js_sort (bill_compare ex_pf ''Latest'') (classified ex_now (page500 ex_pf (Some 1) ex_dimes)) =
     [\<lparr>bill_tx = ex_tx 303 1 ''App'' 2023 12 1 (- (3 / 10)) True, status = Upcoming, dueDay = 1\<rparr>,
      \<lparr>bill_tx = ex_tx 302 1 ''Bus'' 2024 1 2 (- (2 / 10)) True, status = Upcoming, dueDay = 2\<rparr>,
      \<lparr>bill_tx = ex_tx 301 1 ''Tea'' 2024 2 3 (- (1 / 10)) True, status = Upcoming, dueDay = 3\<rparr>]"
  unfolding dimes_bills by (simp add: js_sort_def sort_by_def bill_compare_def)

lemma dimes_added_as_fetched:
  "js_add (js_add (js_add (Double 0) (js_abs (js_number (- (1 / 10))))) (js_abs (js_number (- (2 / 10)))))
      (js_abs (js_number (- (3 / 10)))) = Double (5404319552844596 / 9007199254740992)"
  by code_simp

lemma dimes_added_as_sorted:
  "js_add (js_add (js_add (Double 0) (js_abs (js_number (- (3 / 10))))) (js_abs (js_number (- (2 / 10)))))
      (js_abs (js_number (- (1 / 10)))) = Double (5404319552844595 / 9007199254740992)"
  by code_simp

text \<open>
  Claim C10 as stated fails on \<open>ex_dimes\<close>: with the search \<open>tea\<close> the summary's
  \<open>totalAmount\<close> is \<open>5404319552844596 / 2^53\<close> (0.6000000000000001), the bills being
  added as fetched, and without a search it is \<open>5404319552844595 / 2^53\<close> (0.6), the bills
  being added as sorted.
\<close>

theorem search_changes_total_counterexample:
  "total_amount_of (getRecurringBills ex_pf (Some 1) ex_now
      \<lparr>rb_search = Some ''tea'', rb_sort = None\<rparr> ex_dimes) =
     Inr (Double (5404319552844596 / 9007199254740992)) \<and>
   total_amount_of (getRecurringBills ex_pf (Some 1) ex_now
      \<lparr>rb_search = None, rb_sort = None\<rparr> ex_dimes) =
     Inr (Double (5404319552844595 / 9007199254740992))"
proof -
  have a: "sum_totalAmount (summary_of (classified ex_now (page500 ex_pf (Some 1) ex_dimes))) =
      Double (5404319552844596 / 9007199254740992)"
    unfolding dimes_bills dimes_added_as_fetched [symmetric]
    by (simp add: summary_of_def abs_sum_def Let_def ex_tx_def)
  have b: "sum_totalAmount (summary_of (js_sort (bill_compare ex_pf ''Latest'')
        (classified ex_now (page500 ex_pf (Some 1) ex_dimes)))) =
      Double (5404319552844595 / 9007199254740992)"
    unfolding dimes_sorted dimes_added_as_sorted [symmetric]
    by (simp add: summary_of_def abs_sum_def Let_def ex_tx_def)
  show ?thesis
    unfolding total_amount_of_def getRecurringBills_page500
    using a b by (simp add: summary_with_search summary_without_search)
qed

text \<open>
  The amended claim C10 on \<open>ex_txs\<close>: with the search \<open>net\<close> and without a search
  (sorted by \<open>Highest\<close>) the summary counts two bills to pay, one paid, two upcoming and
  one due soon.
\<close>

lemma txs_counts:
  "counts_of (summary_of (classified ex_now (page500 ex_pf (Some 1) ex_txs))) = (2, 1, 2, 1)"
  by (simp add: page500_def counts_of_def bill_simps)

theorem search_keeps_counts_witness:
  "counts_listed (getRecurringBills ex_pf (Some 1) ex_now
      \<lparr>rb_search = Some ''net'', rb_sort = None\<rparr> ex_txs) = Inr (2, 1, 2, 1) \<and>
   counts_listed (getRecurringBills ex_pf (Some 1) ex_now
      \<lparr>rb_search = None, rb_sort = Some ''Highest''\<rparr> ex_txs) = Inr (2, 1, 2, 1)"
proof -
  note c = search_keeps_counts [of ex_pf "Some 1" ex_now "''net''" None ex_txs "Some ''Highest''"]
  from c have e: "counts_listed (getRecurringBills ex_pf (Some 1) ex_now
        \<lparr>rb_search = Some ''net'', rb_sort = None\<rparr> ex_txs) =
      counts_listed (getRecurringBills ex_pf (Some 1) ex_now
        \<lparr>rb_search = None, rb_sort = Some ''Highest''\<rparr> ex_txs)"
    unfolding counts_listed_def by blast
  from c have "map_sum id resp_summary
      (getRecurringBills ex_pf (Some 1) ex_now \<lparr>rb_search = Some ''net'', rb_sort = None\<rparr> ex_txs) =
     Inr (summary_of (classified ex_now (page500 ex_pf (Some 1) ex_txs)))"
    by simp
  then have "counts_listed (getRecurringBills ex_pf (Some 1) ex_now
        \<lparr>rb_search = Some ''net'', rb_sort = None\<rparr> ex_txs) =
     Inr (counts_of (summary_of (classified ex_now (page500 ex_pf (Some 1) ex_txs))))"
    unfolding counts_listed_def
    by (cases "getRecurringBills ex_pf (Some 1) ex_now \<lparr>rb_search = Some ''net'', rb_sort = None\<rparr> ex_txs")
      simp_all
  with e show ?thesis unfolding txs_counts by (simp only: simp_thms)
qed


end
